theory Spec2Isabelle
  imports Main "HOL-Library.Word"
begin

unbundle bit_operations_syntax

section \<open>Bytes and big-endian encoding\<close>

type_synonym byte = "8 word"

text \<open>Go converts a string to its bytes; every string literal of the transfer code is ASCII.\<close>

definition bytesOf :: "string \<Rightarrow> byte list" where
  "bytesOf s = map (\<lambda>c. of_nat (of_char c)) s"

text \<open>\<open>make([]byte, n)\<close>: a zeroed slice.\<close>

definition makeBytes :: "nat \<Rightarrow> byte list" where
  "makeBytes n = replicate n 0"

text \<open>\<open>binary.BigEndian.PutUint32\<close> and \<open>PutUint16\<close>, as the bytes they store.\<close>

definition putUint32 :: "32 word \<Rightarrow> byte list" where
  "putUint32 v = [ucast (drop_bit 24 v), ucast (drop_bit 16 v), ucast (drop_bit 8 v), ucast v]"

definition putUint16 :: "16 word \<Rightarrow> byte list" where
  "putUint16 v = [ucast (drop_bit 8 v), ucast v]"

text \<open>\<open>binary.BigEndian.Uint32\<close> and \<open>Uint16\<close>. The code calls them on four and two
  bytes cut out of a full header buffer, never on less (where Go would panic).\<close>

fun uint32 :: "byte list \<Rightarrow> 32 word" where
  "uint32 [a, b, c, d] =
     push_bit 24 (ucast a) OR push_bit 16 (ucast b) OR push_bit 8 (ucast c) OR ucast d"
| "uint32 _ = 0"

fun uint16 :: "byte list \<Rightarrow> 16 word" where
  "uint16 [a, b] = push_bit 8 (ucast a) OR ucast b"
| "uint16 _ = 0"

text \<open>
  \<open>copy(buf[lo:hi], src)\<close>: overwrites the window \<open>lo..<hi\<close> of \<open>buf\<close> with as many
  elements of \<open>src\<close> as fit, the rest of \<open>buf\<close> unchanged.
\<close>

definition copyAt :: "byte list \<Rightarrow> nat \<Rightarrow> nat \<Rightarrow> byte list \<Rightarrow> byte list" where
  "copyAt buf lo hi src =
     (let n = min (hi - lo) (length src)
      in take lo buf @ take n src @ drop (lo + n) buf)"

section \<open>The transfer-port handshake\<close>

text \<open>A reference number is a \<open>[4]byte\<close> array.\<close>

type_synonym refnum = "byte \<times> byte \<times> byte \<times> byte"

fun refBytes :: "refnum \<Rightarrow> byte list" where
  "refBytes (a, b, c, d) = [a, b, c, d]"

text \<open>
  The sixteen bytes both \<open>performFileTransfer\<close> and \<open>performFileUpload\<close> build before
  writing them to the transfer connection.
\<close>

definition handshake :: "refnum \<Rightarrow> 32 word \<Rightarrow> byte list" where
  "handshake refNum transferSize =
     (let h0 = makeBytes 16;
          h1 = copyAt h0 0 4 (bytesOf ''HTXF'');
          h2 = copyAt h1 4 8 (refBytes refNum);
          h3 = copyAt h2 8 12 (putUint32 transferSize)
      in h3)"

section \<open>Tasks and the task manager\<close>

datatype TaskStatus = TaskPending | TaskActive | TaskCompleted | TaskFailed

text \<open>
  Go errors as values. \<open>Wrapped label e\<close> is \<open>fmt.Errorf("label: %w", e)\<close>;
  \<open>EOF\<close> and \<open>ErrUnexpectedEOF\<close> are the sentinel errors of package \<open>io\<close>.
\<close>

datatype err = EOF | ErrUnexpectedEOF | OSError string | Wrapped string err

text \<open>
  The \<open>Task\<close> struct. The wall-clock fields (\<open>StartTime\<close>, \<open>EndTime\<close>, \<open>LastUpdate\<close>)
  and the floating-point \<open>Speed\<close> derived from them are left out: no function below
  reads them.
\<close>

record Task =
  ID :: string
  FileName :: string
  FilePath :: "string list"
  Status :: TaskStatus
  TotalBytes :: int
  TransferredBytes :: int
  LastBytes :: int
  Error :: "err option"
  LocalPath :: string

text \<open>
  The manager maps a task ID to a \<open>*Task\<close>. The pointer is modelled by the map entry:
  whoever mutates the task mutates the entry under its ID.
\<close>

record TaskManager =
  tasks :: "string \<rightharpoonup> Task"
  order :: "string list"

definition NewTaskManager :: TaskManager where
  "NewTaskManager = \<lparr>tasks = Map.empty, order = []\<rparr>"

definition Add :: "Task \<Rightarrow> TaskManager \<Rightarrow> TaskManager" where
  "Add task tm = tm\<lparr>tasks := (tasks tm)(ID task \<mapsto> task), order := order tm @ [ID task]\<rparr>"

definition Get :: "TaskManager \<Rightarrow> string \<Rightarrow> Task option" where
  "Get tm tid = tasks tm tid"

text \<open>Reading a field through a nil \<open>*Task\<close> panics.\<close>

datatype panic = NilDereference

fun getActiveLoop :: "(string \<rightharpoonup> Task) \<Rightarrow> string list \<Rightarrow> Task list \<Rightarrow> panic + Task list" where
  "getActiveLoop ts [] active = Inr active"
| "getActiveLoop ts (tid # ids) active =
     (case ts tid of
        None \<Rightarrow> Inl NilDereference
      | Some task \<Rightarrow>
          if Status task = TaskActive \<or> Status task = TaskPending
          then getActiveLoop ts ids (active @ [task])
          else getActiveLoop ts ids active)"

definition GetActive :: "TaskManager \<Rightarrow> panic + Task list" where
  "GetActive tm = getActiveLoop (tasks tm) (order tm) []"

text \<open>
  The loop of \<open>GetCompleted\<close> walks \<open>order\<close> from its last index down to 0 and stops as
  soon as \<open>len(completed) < limit\<close> fails; the second argument is the part of \<open>order\<close>
  still to visit, last index first.
\<close>

fun getCompletedLoop ::
  "(string \<rightharpoonup> Task) \<Rightarrow> string list \<Rightarrow> int \<Rightarrow> Task list \<Rightarrow> panic + Task list" where
  "getCompletedLoop ts [] limit completed = Inr completed"
| "getCompletedLoop ts (tid # ids) limit completed =
     (if int (length completed) < limit then
        (case ts tid of
           None \<Rightarrow> Inl NilDereference
         | Some task \<Rightarrow>
             if Status task = TaskCompleted \<or> Status task = TaskFailed
             then getCompletedLoop ts ids limit (completed @ [task])
             else getCompletedLoop ts ids limit completed)
      else Inr completed)"

definition GetCompleted :: "TaskManager \<Rightarrow> int \<Rightarrow> panic + Task list" where
  "GetCompleted tm limit = getCompletedLoop (tasks tm) (rev (order tm)) limit []"

text \<open>
  A worker holds the \<open>*Task\<close> and assigns \<open>task.Status\<close>; through the shared pointer
  the manager sees the new status.
\<close>

definition setStatus :: "string \<Rightarrow> TaskStatus \<Rightarrow> TaskManager \<Rightarrow> TaskManager" where
  "setStatus tid st tm =
     (case tasks tm tid of
        None \<Rightarrow> tm
      | Some task \<Rightarrow> tm\<lparr>tasks := (tasks tm)(tid \<mapsto> task\<lparr>Status := st\<rparr>)\<rparr>)"

text \<open>Every ID in \<open>order\<close> has its task: what \<open>NewTaskManager\<close>, \<open>Add\<close> and status
  updates keep true, tasks never being deleted.\<close>

definition registered :: "TaskManager \<Rightarrow> bool" where
  "registered tm \<longleftrightarrow> set (order tm) \<subseteq> dom (tasks tm)"

definition terminal :: "Task \<Rightarrow> bool" where
  "terminal task \<longleftrightarrow> Status task = TaskCompleted \<or> Status task = TaskFailed"

text \<open>The tasks of the manager, most recently added first.\<close>

definition newestFirst :: "TaskManager \<Rightarrow> Task list" where
  "newestFirst tm = map (\<lambda>tid. the (tasks tm tid)) (rev (order tm))"

text \<open>
  The task literal of \<open>InitiateDownload\<close> (and of the file-list key handler): the fields
  it does not set have Go's zero values.
\<close>

definition newDownloadTask :: "string \<Rightarrow> string \<Rightarrow> string list \<Rightarrow> Task" where
  "newDownloadTask taskID fileName filePath =
     \<lparr>ID = taskID, FileName = fileName, FilePath = filePath, Status = TaskPending,
      TotalBytes = 0, TransferredBytes = 0, LastBytes = 0, Error = None, LocalPath = []\<rparr>"

section \<open>Resolving the local download path\<close>

text \<open>What the code distinguishes in the result of \<open>os.Stat\<close>: no error, an error that
  \<open>os.IsNotExist\<close> accepts, any other error.\<close>

datatype statRes = StatOK | StatNotExist | StatOtherError

text \<open>\<open>filepath.Ext\<close>: the suffix from the last dot of the last path element, scanning
  from the end and stopping at a separator.\<close>

fun extScan :: "string \<Rightarrow> nat \<Rightarrow> string" where
  "extScan path 0 = []"
| "extScan path (Suc i) =
     (if path ! i = CHR ''/'' then []
      else if path ! i = CHR ''.'' then drop i path
      else extScan path i)"

definition Ext :: "string \<Rightarrow> string" where
  "Ext path = extScan path (length path)"

definition HasSuffix :: "string \<Rightarrow> string \<Rightarrow> bool" where
  "HasSuffix s suffix \<longleftrightarrow>
     length suffix \<le> length s \<and> drop (length s - length suffix) s = suffix"

definition TrimSuffix :: "string \<Rightarrow> string \<Rightarrow> string" where
  "TrimSuffix s suffix = (if HasSuffix s suffix then take (length s - length suffix) s else s)"

text \<open>The verb \<open>%d\<close> of \<open>fmt.Sprintf\<close> on an \<open>int\<close>.\<close>

definition digitChar :: "nat \<Rightarrow> char" where
  "digitChar d = ''0123456789'' ! d"

fun showNat :: "nat \<Rightarrow> string" where
  "showNat n = (if n < 10 then [digitChar n] else showNat (n div 10) @ [digitChar (n mod 10)])"

declare showNat.simps [simp del]

definition itoa :: "int \<Rightarrow> string" where
  "itoa i = (if i < 0 then CHR ''-'' # showNat (nat (- i)) else showNat (nat i))"

text \<open>\<open>fmt.Sprintf("%s (%d)%s", nameWithoutExt, i, ext)\<close>.\<close>

definition numbered :: "string \<Rightarrow> int \<Rightarrow> string \<Rightarrow> string" where
  "numbered nameWithoutExt i ext = nameWithoutExt @ '' ('' @ itoa i @ '')'' @ ext"

text \<open>
  The loop \<open>for i := 1; ; i++\<close> has no exit but the return: it runs until a candidate
  does not exist, and for ever when every candidate exists (\<open>None\<close>).
  \<open>join\<close> is \<open>filepath.Join\<close>, \<open>stat\<close> the file system as \<open>os.Stat\<close> shows it.
\<close>

partial_function (option) resolveLoop ::
  "(string \<Rightarrow> statRes) \<Rightarrow> (int \<Rightarrow> string) \<Rightarrow> int \<Rightarrow> string option" where
  "resolveLoop stat newPath i =
     (if stat (newPath i) = StatNotExist then Some (newPath i)
      else resolveLoop stat newPath (i + 1))"

declare resolveLoop.simps [code]

definition resolveDownloadPath ::
  "(string \<Rightarrow> string \<Rightarrow> string) \<Rightarrow> (string \<Rightarrow> statRes) \<Rightarrow> string \<Rightarrow> string \<Rightarrow> string option" where
  "resolveDownloadPath join stat downloadDir fileName =
     (let basePath = join downloadDir fileName
      in if stat basePath = StatOK then
           (let ext = Ext fileName;
                nameWithoutExt = TrimSuffix fileName ext
            in resolveLoop stat (\<lambda>i. join downloadDir (numbered nameWithoutExt i ext)) 1)
         else Some basePath)"

text \<open>A file system given by the set of paths that exist, every \<open>os.Stat\<close> answering
  either without error or with "does not exist".\<close>

definition statOf :: "string set \<Rightarrow> string \<Rightarrow> statRes" where
  "statOf existing p = (if p \<in> existing then StatOK else StatNotExist)"

text \<open>\<open>filepath.Join\<close> of a clean directory and a plain file name.\<close>

definition joinPath :: "string \<Rightarrow> string \<Rightarrow> string" where
  "joinPath dir name = dir @ ''/'' @ name"

section \<open>Readers and writers\<close>

text \<open>
  An \<open>io.Reader\<close> is modelled by the script of what it has to offer: each entry is a run
  of bytes that arrive together and the error, if any, that the reader reports with the
  last of them. \<open>Read\<close> on a buffer of \<open>k\<close> bytes returns at most \<open>k\<close> bytes of the first
  entry; what does not fit stays for the next call. An exhausted script answers
  \<open>0, io.EOF\<close>.
\<close>

type_synonym reader = "(byte list \<times> err option) list"

fun Read :: "nat \<Rightarrow> reader \<Rightarrow> (byte list \<times> err option) \<times> reader" where
  "Read k [] = (([], Some EOF), [])"
| "Read k ((bs, e) # rest) =
     (if length bs \<le> k then ((bs, e), rest)
      else ((take k bs, None), (drop k bs, e) # rest))"

text \<open>All the bytes a reader still holds, and a size that every \<open>Read\<close> into a nonempty
  buffer makes smaller.\<close>

definition rdBytes :: "reader \<Rightarrow> byte list" where
  "rdBytes r = concat (map fst r)"

definition rdSize :: "reader \<Rightarrow> nat" where
  "rdSize r = sum_list (map (\<lambda>(bs, e). Suc (length bs)) r)"

text \<open>A reader that reports no error before its bytes are used up.\<close>

definition rdClean :: "reader \<Rightarrow> bool" where
  "rdClean r \<longleftrightarrow> (\<forall>p \<in> set r. snd p = None)"

text \<open>An open file positioned at the start of \<open>content\<close>.\<close>

definition fileReader :: "byte list \<Rightarrow> reader" where
  "fileReader content = (if content = [] then [] else [(content, None)])"

text \<open>
  An \<open>io.Writer\<close>: the bytes it has accepted and, when it is bounded, the number of bytes
  it still accepts. A \<open>Write\<close> that does not fit stores what fits and returns an error.
\<close>

record writer =
  wbuf :: "byte list"
  wroom :: "nat option"

definition Write :: "byte list \<Rightarrow> writer \<Rightarrow> err option \<times> writer" where
  "Write bs w =
     (case wroom w of
        None \<Rightarrow> (None, w\<lparr>wbuf := wbuf w @ bs\<rparr>)
      | Some k \<Rightarrow>
          if length bs \<le> k
          then (None, w\<lparr>wbuf := wbuf w @ bs, wroom := Some (k - length bs)\<rparr>)
          else (Some (OSError ''write''), w\<lparr>wbuf := wbuf w @ take k bs, wroom := Some 0\<rparr>))"

definition newFile :: "nat option \<Rightarrow> writer" where
  "newFile room = \<lparr>wbuf = [], wroom = room\<rparr>"

lemma Read_size:
  "snd (fst (Read k r)) = None \<Longrightarrow> 0 < k \<Longrightarrow> rdSize (snd (Read k r)) < rdSize r"
  by (cases r) (auto simp: rdSize_def split: if_splits)

text \<open>
  \<open>io.ReadFull(r, buf)\<close> with \<open>len(buf) = k\<close>: reads until \<open>k\<close> bytes are there or a call
  returns an error; an error with the buffer full is dropped, \<open>io.EOF\<close> after some but
  not all bytes becomes \<open>io.ErrUnexpectedEOF\<close>.
\<close>

function readAtLeast :: "nat \<Rightarrow> byte list \<Rightarrow> reader \<Rightarrow> byte list \<times> err option \<times> reader" where
  "readAtLeast k buf r =
     (if length buf < k then
        (let res = Read (k - length buf) r;
             bs = fst (fst res);
             r' = snd res
         in case snd (fst res) of
              None \<Rightarrow> readAtLeast k (buf @ bs) r'
            | Some e' \<Rightarrow> (buf @ bs, Some e', r'))
      else (buf, None, r))"
  by pat_completeness auto
termination
  by (relation "measure (\<lambda>(k, buf, r). rdSize r)") (auto intro: Read_size)

declare readAtLeast.simps [simp del]

definition ReadFull :: "nat \<Rightarrow> reader \<Rightarrow> err option \<times> byte list \<times> reader" where
  "ReadFull k r =
     (let (buf, e, r') = readAtLeast k [] r
      in if k \<le> length buf then (None, buf, r')
         else if 0 < length buf \<and> e = Some EOF then (Some ErrUnexpectedEOF, buf, r')
         else (e, buf, r'))"

text \<open>
  \<open>io.CopyN(dst, src, n)\<close>: \<open>io.Copy\<close> from a reader limited to \<open>n\<close> bytes. The limited
  reader answers \<open>io.EOF\<close> once its \<open>n\<close> bytes are spent, which ends the copy without an
  error; \<open>CopyN\<close> then reports \<open>io.EOF\<close> itself when fewer than \<open>n\<close> bytes were copied and
  no other error came up.
\<close>

function copyLimited ::
  "nat \<Rightarrow> nat \<Rightarrow> reader \<Rightarrow> writer \<Rightarrow> err option \<times> nat \<times> reader \<times> writer" where
  "copyLimited left written r w =
     (if left = 0 then (None, written, r, w)
      else
        (let res = Read (min 32768 left) r;
             bs = fst (fst res);
             er = snd (fst res);
             r' = snd res
         in if bs \<noteq> [] then
              (case Write bs w of
                 (Some ew, w') \<Rightarrow>
                   (Some ew, written + (length (wbuf w') - length (wbuf w)), r', w')
               | (None, w') \<Rightarrow>
                   (case er of
                      None \<Rightarrow> copyLimited (left - length bs) (written + length bs) r' w'
                    | Some e \<Rightarrow>
                        (if e = EOF then None else Some e, written + length bs, r', w')))
            else
              (case er of
                 None \<Rightarrow> copyLimited left written r' w
               | Some e \<Rightarrow> (if e = EOF then None else Some e, written, r', w))))"
  by pat_completeness auto
termination
  by (relation "measure (\<lambda>(left, written, r, w). rdSize r)") (auto intro: Read_size)

declare copyLimited.simps [simp del]

definition CopyN :: "writer \<Rightarrow> reader \<Rightarrow> nat \<Rightarrow> err option \<times> reader \<times> writer" where
  "CopyN dst src n =
     (let (e, written, r', w') = copyLimited n 0 src dst
      in if written = n then (None, r', w')
         else if e = None then (Some EOF, r', w')
         else (e, r', w'))"

text \<open>\<open>io.Discard\<close>.\<close>

definition Discard :: writer where
  "Discard = \<lparr>wbuf = [], wroom = None\<rparr>"

section \<open>Copying with progress\<close>

text \<open>What the workers send to the program: \<open>taskProgressMsg\<close> and \<open>taskStatusMsg\<close>.\<close>

datatype message =
  TaskProgressMsg string int
| TaskStatusMsg string TaskStatus "err option"

text \<open>
  The state of one copy: source, destination, the task, the messages sent so far, and
  the ticker. The ticker is a 100 ms timer; \<open>cTicks\<close> says, for each chunk in turn,
  whether a tick was waiting when the chunk had been written (none once the list is
  used up).
\<close>

record copier =
  cSrc :: reader
  cDst :: writer
  cTask :: Task
  cSent :: "message list"
  cTicks :: "bool list"

datatype flow = Continue | Break | Return err

text \<open>One pass through the body of the loop of \<open>copyWithProgress\<close>, entered with
  \<open>written < size\<close>.\<close>

definition copyStep :: "int \<Rightarrow> int \<Rightarrow> copier \<Rightarrow> flow \<times> int \<times> copier" where
  "copyStep sz written c =
     (let toRead = (if sz - written < 32 * 1024 then sz - written else 32 * 1024);
          ((buf, rerr), src') = Read (nat toRead) (cSrc c);
          c1 = c\<lparr>cSrc := src'\<rparr>
      in if buf \<noteq> [] then
           (case Write buf (cDst c1) of
              (Some writeErr, dst') \<Rightarrow> (Return writeErr, written, c1\<lparr>cDst := dst'\<rparr>)
            | (None, dst') \<Rightarrow>
                (let written' = written + int (length buf);
                     task' = (cTask c1)\<lparr>TransferredBytes := written'\<rparr>;
                     tick = (case cTicks c1 of [] \<Rightarrow> False | t # ts \<Rightarrow> t);
                     c2 = c1\<lparr>cDst := dst', cTask := task', cTicks := tl (cTicks c1),
                            cSent := (if tick
                                      then cSent c1 @ [TaskProgressMsg (ID task') written']
                                      else cSent c1)\<rparr>
                 in case rerr of
                      None \<Rightarrow> (Continue, written', c2)
                    | Some e \<Rightarrow> (if e = EOF then Break else Return e, written', c2)))
         else
           (case rerr of
              None \<Rightarrow> (Continue, written, c1)
            | Some e \<Rightarrow> (if e = EOF then Break else Return e, written, c1)))"

lemma copyStep_size:
  "copyStep sz written c = (Continue, written', c') \<Longrightarrow> written < sz \<Longrightarrow>
   rdSize (cSrc c') < rdSize (cSrc c)"
  using Read_size [of "nat (if sz - written < 32 * 1024 then sz - written else 32 * 1024)" "cSrc c"]
  by (auto simp: copyStep_def Let_def split: prod.splits if_splits option.splits)

function copyLoop :: "int \<Rightarrow> int \<Rightarrow> copier \<Rightarrow> err option \<times> int \<times> copier" where
  "copyLoop sz written c =
     (if written < sz then
        (let (fl, written', c') = copyStep sz written c
         in case fl of
              Continue \<Rightarrow> copyLoop sz written' c'
            | Break \<Rightarrow> (None, written', c')
            | Return e \<Rightarrow> (Some e, written', c'))
      else (None, written, c))"
  by pat_completeness auto
termination
  by (relation "measure (\<lambda>(sz, written, c). rdSize (cSrc c))")
    (auto dest: copyStep_size [OF sym])

declare copyLoop.simps [simp del]

text \<open>
  \<open>copyWithProgress(dst, src, size, task)\<close>: the returned error, and the copy state at
  the return. After the loop, whether it ran out or was left by \<open>break\<close>, the final
  progress message is sent and the result is \<open>nil\<close>.
\<close>

definition copyWithProgress ::
  "writer \<Rightarrow> reader \<Rightarrow> int \<Rightarrow> Task \<Rightarrow> bool list \<Rightarrow> err option \<times> copier" where
  "copyWithProgress dst src sz task ticks =
     (let c0 = \<lparr>cSrc = src, cDst = dst, cTask = task\<lparr>LastBytes := 0\<rparr>, cSent = [],
                cTicks = ticks\<rparr>;
          (e, written, c) = copyLoop sz 0 c0
      in case e of
           Some e' \<Rightarrow> (Some e', c)
         | None \<Rightarrow> (None, c\<lparr>cSent := cSent c @ [TaskProgressMsg (ID (cTask c)) written]\<rparr>))"

text \<open>\<open>copyWithProgressUpload\<close> has the same body, statement for statement.\<close>

definition copyWithProgressUpload ::
  "writer \<Rightarrow> reader \<Rightarrow> int \<Rightarrow> Task \<Rightarrow> bool list \<Rightarrow> err option \<times> copier" where
  "copyWithProgressUpload dst src sz task ticks =
     (let c0 = \<lparr>cSrc = src, cDst = dst, cTask = task\<lparr>LastBytes := 0\<rparr>, cSent = [],
                cTicks = ticks\<rparr>;
          (e, written, c) = copyLoop sz 0 c0
      in case e of
           Some e' \<Rightarrow> (Some e', c)
         | None \<Rightarrow> (None, c\<lparr>cSent := cSent c @ [TaskProgressMsg (ID (cTask c)) written]\<rparr>))"

section \<open>The resource-fork sidecar\<close>

text \<open>A write that follows earlier ones: skipped once one of them has failed, as each
  \<open>if _, err := w.Write(...); err != nil { return err }\<close> of the source does.\<close>

fun thenWrite :: "err option \<times> writer \<Rightarrow> byte list \<Rightarrow> err option \<times> writer" where
  "thenWrite (Some e, w) bs = (Some e, w)"
| "thenWrite (None, w) bs = Write bs w"

text \<open>\<open>writeAppleDoubleHeader(w, resourceForkSize)\<close>: seven writes, in this order.\<close>

definition writeAppleDoubleHeader :: "writer \<Rightarrow> 32 word \<Rightarrow> err option \<times> writer" where
  "writeAppleDoubleHeader w resourceForkSize =
     (let r1 = Write [0x00, 0x05, 0x16, 0x07] w;
          r2 = thenWrite r1 [0x00, 0x02, 0x00, 0x00];
          r3 = thenWrite r2 (makeBytes 16);
          r4 = thenWrite r3 [0x00, 0x01];
          r5 = thenWrite r4 [0x00, 0x00, 0x00, 0x02];
          r6 = thenWrite r5 [0x00, 0x00, 0x00, 0x52];
          sizeBytes = copyAt (makeBytes 4) 0 4 (putUint32 resourceForkSize);
          r7 = thenWrite r6 sizeBytes
      in r7)"

section \<open>The download worker\<close>

text \<open>
  Everything \<open>performFileTransfer\<close> gets from outside: the outcome of dialling, the
  two directions of the connection, the path functions of \<open>path/filepath\<close>, the file
  system as \<open>os.Stat\<close> shows it, the download directory, the outcomes of \<open>os.MkdirAll\<close>
  and of the two \<open>os.Create\<close> calls, the room of the two created files, and the ticker.
\<close>

record dlEnv =
  dialErr :: "err option"
  connIn :: reader
  connOut :: writer
  pathJoin :: "string \<Rightarrow> string \<Rightarrow> string"
  pathDir :: "string \<Rightarrow> string"
  pathBase :: "string \<Rightarrow> string"
  fsStat :: "string \<Rightarrow> statRes"
  downloadDir :: string
  mkdirErr :: "err option"
  createErr :: "err option"
  fileRoom :: "nat option"
  resCreateErr :: "err option"
  resRoom :: "nat option"
  dlTicks :: "bool list"

text \<open>What the worker has done when it returns: the task, what is left of the incoming
  stream, what was written to the connection, the local file and the sidecar file with
  their paths (when created), and the messages sent to the program.\<close>

record dlState =
  dTask :: Task
  dIn :: reader
  dOut :: writer
  dFile :: "(string \<times> writer) option"
  dResFile :: "(string \<times> writer) option"
  dSent :: "message list"

text \<open>\<open>task.Status = TaskFailed; task.Error = fmt.Errorf("label: %w", err)\<close>.\<close>

definition failTask :: "string \<Rightarrow> err \<Rightarrow> Task \<Rightarrow> Task" where
  "failTask label e task = task\<lparr>Status := TaskFailed, Error := Some (Wrapped label e)\<rparr>"

definition dlFail :: "string \<Rightarrow> err \<Rightarrow> dlState \<Rightarrow> dlState" where
  "dlFail label e s = s\<lparr>dTask := failTask label e (dTask s)\<rparr>"

text \<open>
  From the dial to the creation of the local file. \<open>Inl\<close> is a return of the worker,
  \<open>Inr\<close> goes on with the local path and the open file; \<open>None\<close> is a path resolution
  that never returns.
\<close>

definition dlOpen ::
  "dlEnv \<Rightarrow> Task \<Rightarrow> refnum \<Rightarrow> 32 word \<Rightarrow> (dlState + string \<times> writer \<times> dlState) option" where
  "dlOpen env task refNum transferSize =
     (let s0 = \<lparr>dTask = task, dIn = connIn env, dOut = connOut env, dFile = None,
                dResFile = None, dSent = []\<rparr>
      in case dialErr env of
           Some e \<Rightarrow> Some (Inl (dlFail ''connection failed'' e s0))
         | None \<Rightarrow>
             (case Write (handshake refNum transferSize) (dOut s0) of
                (Some e, out') \<Rightarrow> Some (Inl (dlFail ''handshake failed'' e (s0\<lparr>dOut := out'\<rparr>)))
              | (None, out') \<Rightarrow>
                  (case resolveDownloadPath (pathJoin env) (fsStat env) (downloadDir env)
                          (FileName task) of
                     None \<Rightarrow> None
                   | Some localPath \<Rightarrow>
                       (let s1 = s0\<lparr>dOut := out', dTask := task\<lparr>LocalPath := localPath\<rparr>\<rparr>
                        in case mkdirErr env of
                             Some e \<Rightarrow> Some (Inl (dlFail ''mkdir failed'' e s1))
                           | None \<Rightarrow>
                               (case createErr env of
                                  Some e \<Rightarrow> Some (Inl (dlFail ''create file failed'' e s1))
                                | None \<Rightarrow>
                                    (let file = newFile (fileRoom env)
                                     in Some (Inr (localPath, file,
                                          s1\<lparr>dFile := Some (localPath, file)\<rparr>))))))))"

text \<open>The container header, the information fork (read and thrown away) and the header
  of the data fork. \<open>Inr\<close> carries the fork count and the declared data-fork size.\<close>

definition dlReadHeaders :: "dlState \<Rightarrow> dlState + 16 word \<times> 32 word \<times> dlState" where
  "dlReadHeaders s =
     (case ReadFull 24 (dIn s) of
        (Some e, ffoHeader, in1) \<Rightarrow> Inl (dlFail ''read FFO header failed'' e (s\<lparr>dIn := in1\<rparr>))
      | (None, ffoHeader, in1) \<Rightarrow>
          (let forkCount = uint16 (take 2 (drop 22 ffoHeader))
           in case ReadFull 16 in1 of
                (Some e, infoForkHeader, in2) \<Rightarrow>
                  Inl (dlFail ''read info fork header failed'' e (s\<lparr>dIn := in2\<rparr>))
              | (None, infoForkHeader, in2) \<Rightarrow>
                  (let infoForkSize = uint32 (take 4 (drop 12 infoForkHeader))
                   in case CopyN Discard in2 (unat infoForkSize) of
                        (Some e, in3, discarded) \<Rightarrow>
                          Inl (dlFail ''read info fork failed'' e (s\<lparr>dIn := in3\<rparr>))
                      | (None, in3, discarded) \<Rightarrow>
                          (case ReadFull 16 in3 of
                             (Some e, dataForkHeader, in4) \<Rightarrow>
                               Inl (dlFail ''read data fork header failed'' e (s\<lparr>dIn := in4\<rparr>))
                           | (None, dataForkHeader, in4) \<Rightarrow>
                               Inr (forkCount, uint32 (take 4 (drop 12 dataForkHeader)),
                                    s\<lparr>dIn := in4\<rparr>)))))"

text \<open>The data fork, streamed into the local file.\<close>

definition dlCopyData ::
  "dlEnv \<Rightarrow> string \<Rightarrow> writer \<Rightarrow> 32 word \<Rightarrow> dlState \<Rightarrow> dlState + dlState" where
  "dlCopyData env localPath file dataForkSize s =
     (case copyWithProgress file (dIn s) (uint dataForkSize) (dTask s) (dlTicks env) of
        (e, c) \<Rightarrow>
          (let s' = s\<lparr>dIn := cSrc c, dFile := Some (localPath, cDst c), dTask := cTask c,
                      dSent := dSent s @ cSent c\<rparr>
           in case e of
                Some e' \<Rightarrow> Inl (dlFail ''data transfer failed'' e' s')
              | None \<Rightarrow> Inr s'))"

text \<open>The resource fork, when the header announced three forks. Every failure here is
  logged and the worker returns, the task untouched.\<close>

definition dlResourceFork :: "dlEnv \<Rightarrow> string \<Rightarrow> dlState \<Rightarrow> dlState" where
  "dlResourceFork env localPath s =
     (case ReadFull 16 (dIn s) of
        (Some e, resForkHeader, in1) \<Rightarrow> s\<lparr>dIn := in1\<rparr>
      | (None, resForkHeader, in1) \<Rightarrow>
          (let resForkSize = uint32 (take 4 (drop 12 resForkHeader));
               resPath = pathJoin env (pathDir env localPath) (''._'' @ pathBase env localPath)
           in case resCreateErr env of
                Some e \<Rightarrow> s\<lparr>dIn := in1\<rparr>
              | None \<Rightarrow>
                  (case writeAppleDoubleHeader (newFile (resRoom env)) resForkSize of
                     (Some e, resFile) \<Rightarrow> s\<lparr>dIn := in1, dResFile := Some (resPath, resFile)\<rparr>
                   | (None, resFile) \<Rightarrow>
                       (case CopyN resFile in1 (unat resForkSize) of
                          (e, in2, resFile') \<Rightarrow>
                            s\<lparr>dIn := in2, dResFile := Some (resPath, resFile')\<rparr>))))"

text \<open>The worker up to the point where the data fork has been copied.\<close>

definition dlDataFork ::
  "dlEnv \<Rightarrow> Task \<Rightarrow> refnum \<Rightarrow> 32 word \<Rightarrow>
   (dlState + 16 word \<times> 32 word \<times> string \<times> dlState) option" where
  "dlDataFork env task refNum transferSize =
     (case dlOpen env task refNum transferSize of
        None \<Rightarrow> None
      | Some (Inl s) \<Rightarrow> Some (Inl s)
      | Some (Inr (localPath, file, s)) \<Rightarrow>
          (case dlReadHeaders s of
             Inl s' \<Rightarrow> Some (Inl s')
           | Inr (forkCount, dataForkSize, s') \<Rightarrow>
               (case dlCopyData env localPath file dataForkSize s' of
                  Inl s'' \<Rightarrow> Some (Inl s'')
                | Inr s'' \<Rightarrow> Some (Inr (forkCount, dataForkSize, localPath, s'')))))"

text \<open>The deferred function: an Active task becomes Completed, and the status message
  is sent with the status and the error the task has then.\<close>

definition deferredStatus :: "Task \<Rightarrow> Task \<times> message" where
  "deferredStatus task =
     (let task' = (if Status task = TaskActive then task\<lparr>Status := TaskCompleted\<rparr> else task)
      in (task', TaskStatusMsg (ID task') (Status task') (Error task')))"

definition dlDeferred :: "dlState \<Rightarrow> dlState" where
  "dlDeferred s =
     (case deferredStatus (dTask s) of
        (task', msg) \<Rightarrow> s\<lparr>dTask := task', dSent := dSent s @ [msg]\<rparr>)"

definition performFileTransfer ::
  "dlEnv \<Rightarrow> Task \<Rightarrow> refnum \<Rightarrow> 32 word \<Rightarrow> dlState option" where
  "performFileTransfer env task refNum transferSize =
     (case dlDataFork env task refNum transferSize of
        None \<Rightarrow> None
      | Some (Inl s) \<Rightarrow> Some (dlDeferred s)
      | Some (Inr (forkCount, dataForkSize, localPath, s)) \<Rightarrow>
          Some (dlDeferred (if forkCount = 3 then dlResourceFork env localPath s else s)))"

text \<open>
  What the program can observe of a worker that has returned. \<open>endsFailed\<close>: the task is
  Failed, its error is \<open>fmt.Errorf("label: %w", e)\<close>, and the last message sent is the
  \<open>taskStatusMsg\<close> with that status and that error. \<open>endsCompleted\<close>: the task is
  Completed, its error is the one it had when the worker started, and the last message
  sent says so. A worker that never returns ends neither way.
\<close>

definition endsFailed :: "dlState option \<Rightarrow> Task \<Rightarrow> string \<Rightarrow> err \<Rightarrow> bool" where
  "endsFailed run task label e =
     (case run of
        None \<Rightarrow> False
      | Some out \<Rightarrow>
          Status (dTask out) = TaskFailed
        \<and> Error (dTask out) = Some (Wrapped label e)
        \<and> dSent out \<noteq> []
        \<and> last (dSent out) = TaskStatusMsg (ID task) TaskFailed (Some (Wrapped label e)))"

definition endsCompleted :: "dlState option \<Rightarrow> Task \<Rightarrow> bool" where
  "endsCompleted run task =
     (case run of
        None \<Rightarrow> False
      | Some out \<Rightarrow>
          Status (dTask out) = TaskCompleted
        \<and> Error (dTask out) = Error task
        \<and> dSent out \<noteq> []
        \<and> last (dSent out) = TaskStatusMsg (ID task) TaskCompleted (Error task))"

section \<open>The upload worker\<close>

text \<open>What \<open>os.Stat\<close> finds at the sidecar path: nothing (any error), a directory of some
  size, or a file with its contents.\<close>

datatype fsEntry = Missing | Directory int | RegularFile "byte list"

text \<open>
  Everything \<open>performFileUpload\<close> gets from outside: the outcomes of opening the local
  file and of \<open>file.Stat\<close>, the contents of the file, the information fork that
  \<open>createInfoFork\<close> builds with the hotline library, the sidecar entry and the outcome of
  opening it, the outcome of dialling, the connection, and the ticker.
\<close>

record ulEnv =
  openErr :: "err option"
  statErr :: "err option"
  localContent :: "byte list"
  infoFork :: "byte list"
  sidecar :: fsEntry
  sidecarOpenErr :: "err option"
  ulDialErr :: "err option"
  ulConn :: writer
  ulTicks :: "bool list"

record ulState =
  uTask :: Task
  uOut :: writer
  uSent :: "message list"

text \<open>The sidecar as \<open>performFileUpload\<close> looks at it, with \<open>os.Stat\<close> only:
  \<open>resForkSize\<close> and \<open>hasResourceFork\<close>.\<close>

definition statSidecar :: "ulEnv \<Rightarrow> int \<times> bool" where
  "statSidecar env =
     (case sidecar env of
        RegularFile content \<Rightarrow>
          (let resForkSize = int (length content) - 82 in (resForkSize, 0 < resForkSize))
      | _ \<Rightarrow> (0, False))"

text \<open>The sidecar as \<open>sendFlattenedFileObject\<close> looks at it: \<open>os.Stat\<close>, then \<open>os.Open\<close>
  and a seek to offset 82. The result is \<open>resFile\<close>, \<open>resForkSize\<close> and
  \<open>hasResourceFork\<close>.\<close>

definition openSidecar :: "ulEnv \<Rightarrow> reader option \<times> int \<times> bool" where
  "openSidecar env =
     (case sidecar env of
        RegularFile content \<Rightarrow>
          (case sidecarOpenErr env of
             None \<Rightarrow>
               (let resForkSize = int (length content) - 82
                in (Some (fileReader (drop 82 content)), resForkSize, 0 < resForkSize))
           | Some e \<Rightarrow> (None, 0, False))
      | _ \<Rightarrow> (None, 0, False))"

definition ffoHeader :: "16 word \<Rightarrow> byte list" where
  "ffoHeader forkCount =
     (let h0 = makeBytes 24;
          h1 = copyAt h0 4 6 (putUint16 1);
          h2 = copyAt h1 22 24 (putUint16 forkCount)
      in h2)"

definition forkHeader :: "string \<Rightarrow> 32 word \<Rightarrow> byte list" where
  "forkHeader forkType dataSize =
     (let h0 = makeBytes 16;
          h1 = copyAt h0 0 4 (bytesOf forkType);
          h2 = copyAt h1 12 16 (putUint32 dataSize)
      in h2)"

text \<open>\<open>uint32(x)\<close> on an \<open>int64\<close> or \<open>int\<close>: the low 32 bits.\<close>

definition toUint32 :: "int \<Rightarrow> 32 word" where
  "toUint32 x = word_of_int x"

definition sendFlattenedFileObject ::
  "ulEnv \<Rightarrow> writer \<Rightarrow> Task \<Rightarrow> err option \<times> ulState" where
  "sendFlattenedFileObject env conn task =
     (case openSidecar env of
        (resFile, resForkSize, hasResourceFork) \<Rightarrow>
          (let forkCount = (if hasResourceFork then 3 else 2);
               fileSize = int (length (localContent env));
               s0 = \<lparr>uTask = task, uOut = conn, uSent = []\<rparr>
           in case Write (ffoHeader forkCount) conn of
                (Some e, c1) \<Rightarrow> (Some (Wrapped ''write FFO header'' e), s0\<lparr>uOut := c1\<rparr>)
              | (None, c1) \<Rightarrow>
             (case Write (infoFork env) c1 of
                (Some e, c2) \<Rightarrow> (Some (Wrapped ''write info fork'' e), s0\<lparr>uOut := c2\<rparr>)
              | (None, c2) \<Rightarrow>
             (case Write (forkHeader ''DATA'' (toUint32 fileSize)) c2 of
                (Some e, c3) \<Rightarrow> (Some (Wrapped ''write data fork header'' e), s0\<lparr>uOut := c3\<rparr>)
              | (None, c3) \<Rightarrow>
             (case copyWithProgressUpload c3 (fileReader (localContent env)) fileSize task
                     (ulTicks env) of
                (e, c) \<Rightarrow>
                  (let s1 = \<lparr>uTask = cTask c, uOut = cDst c, uSent = cSent c\<rparr>
                   in case e of
                        Some e' \<Rightarrow> (Some (Wrapped ''data transfer'' e'), s1)
                      | None \<Rightarrow>
                          (case resFile of
                             Some resReader \<Rightarrow>
                               (if hasResourceFork then
                                  (case Write (forkHeader ''MACR'' (toUint32 resForkSize))
                                          (uOut s1) of
                                     (Some e', c4) \<Rightarrow>
                                       (Some (Wrapped ''write resource fork header'' e'),
                                        s1\<lparr>uOut := c4\<rparr>)
                                   | (None, c4) \<Rightarrow>
                                       (case CopyN c4 resReader (nat resForkSize) of
                                          (Some e', rest, c5) \<Rightarrow>
                                            (Some (Wrapped ''resource fork transfer'' e'),
                                             s1\<lparr>uOut := c5\<rparr>)
                                        | (None, rest, c5) \<Rightarrow> (None, s1\<lparr>uOut := c5\<rparr>)))
                                else (None, s1))
                           | None \<Rightarrow> (None, s1))))))))"

text \<open>The total size announced in the handshake of an upload.\<close>

definition uploadTotalSize :: "ulEnv \<Rightarrow> 32 word" where
  "uploadTotalSize env =
     (case statSidecar env of
        (resForkSize, hasResourceFork) \<Rightarrow>
          (let totalSize = toUint32 (24 + int (length (infoFork env)) + 16
                                      + int (length (localContent env)))
           in if hasResourceFork then totalSize + toUint32 (16 + resForkSize) else totalSize))"

definition ulFail :: "err \<Rightarrow> ulState \<Rightarrow> ulState" where
  "ulFail e s = s\<lparr>uTask := (uTask s)\<lparr>Status := TaskFailed, Error := Some e\<rparr>\<rparr>"

definition ulDeferred :: "ulState \<Rightarrow> ulState" where
  "ulDeferred s =
     (case deferredStatus (uTask s) of
        (task', msg) \<Rightarrow> s\<lparr>uTask := task', uSent := uSent s @ [msg]\<rparr>)"

definition performFileUpload :: "ulEnv \<Rightarrow> Task \<Rightarrow> refnum \<Rightarrow> ulState" where
  "performFileUpload env task refNum =
     ulDeferred
       (let s0 = \<lparr>uTask = task, uOut = ulConn env, uSent = []\<rparr>
        in case openErr env of
             Some e \<Rightarrow> ulFail (Wrapped ''open file failed'' e) s0
           | None \<Rightarrow>
          (case statErr env of
             Some e \<Rightarrow> ulFail (Wrapped ''stat file failed'' e) s0
           | None \<Rightarrow>
          (case ulDialErr env of
             Some e \<Rightarrow> ulFail (Wrapped ''connection failed'' e) s0
           | None \<Rightarrow>
          (case Write (handshake refNum (uploadTotalSize env)) (ulConn env) of
             (Some e, c1) \<Rightarrow> ulFail (Wrapped ''handshake failed'' e) (s0\<lparr>uOut := c1\<rparr>)
           | (None, c1) \<Rightarrow>
          (case sendFlattenedFileObject env c1 task of
             (Some e, s1) \<Rightarrow> ulFail e s1
           | (None, s1) \<Rightarrow> s1)))))"

text \<open>The sidecar is a file that can be opened and has more than 82 bytes.\<close>

definition sidecarFork :: "ulEnv \<Rightarrow> byte list option" where
  "sidecarFork env =
     (case sidecar env of
        RegularFile content \<Rightarrow>
          (if sidecarOpenErr env = None \<and> 82 < length content then Some (drop 82 content)
           else None)
      | _ \<Rightarrow> None)"

section \<open>The message handlers\<close>

text \<open>The part of \<open>Model\<close> the transfer handlers use. A transaction ID is a \<open>[4]byte\<close>.\<close>

record Model =
  taskManager :: TaskManager
  pendingDownloads :: "refnum \<rightharpoonup> string"
  pendingUploads :: "refnum \<rightharpoonup> string"

definition NewModel :: Model where
  "NewModel = \<lparr>taskManager = NewTaskManager, pendingDownloads = Map.empty,
               pendingUploads = Map.empty\<rparr>"

text \<open>An assignment to fields of the task behind a \<open>*Task\<close>.\<close>

definition modifyTask :: "string \<Rightarrow> (Task \<Rightarrow> Task) \<Rightarrow> TaskManager \<Rightarrow> TaskManager" where
  "modifyTask tid f tm =
     (case tasks tm tid of
        None \<Rightarrow> tm
      | Some task \<Rightarrow> tm\<lparr>tasks := (tasks tm)(tid \<mapsto> f task)\<rparr>)"

text \<open>\<open>InitiateDownload\<close>: the task ID is a fresh UUID and the transaction ID comes from
  the hotline library; both are taken as given.\<close>

definition InitiateDownload ::
  "string \<Rightarrow> string \<Rightarrow> string list \<Rightarrow> refnum \<Rightarrow> Model \<Rightarrow> Model" where
  "InitiateDownload taskID fileName filePath txID m =
     m\<lparr>taskManager := Add (newDownloadTask taskID fileName filePath) (taskManager m),
       pendingDownloads := (pendingDownloads m)(txID \<mapsto> taskID)\<rparr>"

text \<open>\<open>initiateFileUpload\<close>, past its two early returns (the file cannot be read, or is a
  folder): the task is registered and the command returns a status message saying
  Pending.\<close>

definition newUploadTask :: "string \<Rightarrow> string \<Rightarrow> string list \<Rightarrow> int \<Rightarrow> string \<Rightarrow> Task" where
  "newUploadTask taskID fileName filePath fileSize localPath =
     \<lparr>ID = taskID, FileName = fileName, FilePath = filePath, Status = TaskPending,
      TotalBytes = fileSize, TransferredBytes = 0, LastBytes = 0, Error = None,
      LocalPath = localPath\<rparr>"

definition initiateFileUpload ::
  "string \<Rightarrow> string \<Rightarrow> string list \<Rightarrow> int \<Rightarrow> string \<Rightarrow> refnum \<Rightarrow> Model \<Rightarrow> Model \<times> message" where
  "initiateFileUpload taskID fileName filePath fileSize localPath txID m =
     (m\<lparr>taskManager := Add (newUploadTask taskID fileName filePath fileSize localPath)
                          (taskManager m),
        pendingUploads := (pendingUploads m)(txID \<mapsto> taskID)\<rparr>,
      TaskStatusMsg taskID TaskPending None)"

fun handleTaskStatusMsg :: "message \<Rightarrow> Model \<Rightarrow> Model" where
  "handleTaskStatusMsg (TaskStatusMsg taskID status e) m =
     (case Get (taskManager m) taskID of
        None \<Rightarrow> m
      | Some task \<Rightarrow>
          m\<lparr>taskManager :=
              modifyTask taskID (\<lambda>t. t\<lparr>Status := status, Error := e\<rparr>) (taskManager m)\<rparr>)"
| "handleTaskStatusMsg (TaskProgressMsg taskID n) m = m"

fun handleTaskProgressMsg :: "message \<Rightarrow> Model \<Rightarrow> Model" where
  "handleTaskProgressMsg (TaskProgressMsg taskID n) m =
     (case Get (taskManager m) taskID of
        None \<Rightarrow> m
      | Some task \<Rightarrow>
          m\<lparr>taskManager :=
              modifyTask taskID (\<lambda>t. t\<lparr>TransferredBytes := n, LastBytes := n\<rparr>)
                (taskManager m)\<rparr>)"
| "handleTaskProgressMsg (TaskStatusMsg taskID status e) m = m"

text \<open>
  \<open>handleDownloadReplyMsg\<close>: a transaction ID that is not pending gives the empty task
  ID. With the model comes the worker the handler starts, if any: the task as the worker
  finds it, the reference number and the transfer size.
\<close>

definition handleDownloadReplyMsg ::
  "refnum \<Rightarrow> refnum \<Rightarrow> 32 word \<Rightarrow> 32 word \<Rightarrow> Model \<Rightarrow>
   Model \<times> (Task \<times> refnum \<times> 32 word) option" where
  "handleDownloadReplyMsg txID refNum transferSize fileSize m =
     (let taskID = (case pendingDownloads m txID of None \<Rightarrow> [] | Some t \<Rightarrow> t);
          m1 = m\<lparr>pendingDownloads := (pendingDownloads m)(txID := None)\<rparr>
      in case Get (taskManager m1) taskID of
           None \<Rightarrow> (m1, None)
         | Some task \<Rightarrow>
             (let task' = task\<lparr>TotalBytes := uint transferSize, Status := TaskActive\<rparr>
              in (m1\<lparr>taskManager := modifyTask taskID (\<lambda>t. task') (taskManager m1)\<rparr>,
                  Some (task', refNum, transferSize))))"

definition handleUploadReplyMsg ::
  "refnum \<Rightarrow> refnum \<Rightarrow> Model \<Rightarrow> Model \<times> (Task \<times> refnum) option" where
  "handleUploadReplyMsg txID refNum m =
     (case pendingUploads m txID of
        None \<Rightarrow> (m, None)
      | Some taskID \<Rightarrow>
          (let m1 = m\<lparr>pendingUploads := (pendingUploads m)(txID := None)\<rparr>
           in case Get (taskManager m1) taskID of
                None \<Rightarrow> (m1, None)
              | Some task \<Rightarrow>
                  (let task' = task\<lparr>Status := TaskActive\<rparr>
                   in (m1\<lparr>taskManager := modifyTask taskID (\<lambda>t. task') (taskManager m1)\<rparr>,
                       Some (task', refNum)))))"

section \<open>One transfer, from the request to the terminal notice\<close>

text \<open>A worker writes through its \<open>*Task\<close>: what it leaves in the task is what the
  manager holds under the task's ID.\<close>

definition storeTask :: "Task \<Rightarrow> Model \<Rightarrow> Model" where
  "storeTask task m = m\<lparr>taskManager := modifyTask (ID task) (\<lambda>t. task) (taskManager m)\<rparr>"

definition statusOf :: "Model \<Rightarrow> string \<Rightarrow> TaskStatus option" where
  "statusOf m tid = map_option Status (Get (taskManager m) tid)"

text \<open>Forward along Pending, Active, then Completed or Failed.\<close>

fun rank :: "TaskStatus \<Rightarrow> nat" where
  "rank TaskPending = 0"
| "rank TaskActive = 1"
| "rank TaskCompleted = 2"
| "rank TaskFailed = 2"

definition forward :: "TaskStatus \<Rightarrow> TaskStatus \<Rightarrow> bool" where
  "forward a b \<longleftrightarrow> a = b \<or> rank a < rank b"

fun forwardOnly :: "TaskStatus option list \<Rightarrow> bool" where
  "forwardOnly (Some a # Some b # rest) = (forward a b \<and> forwardOnly (Some b # rest))"
| "forwardOnly (None # rest) = False"
| "forwardOnly (a # None # rest) = False"
| "forwardOnly [a] = True"
| "forwardOnly [] = True"

text \<open>
  The status of the task after each step of an upload, the steps taken in the order the
  program issues them: \<open>initiateFileUpload\<close>, its Pending notice handled, the upload
  reply handled, the worker run to its return, the worker's notice handled.
\<close>

definition uploadStatuses ::
  "ulEnv \<Rightarrow> string \<Rightarrow> string \<Rightarrow> string list \<Rightarrow> int \<Rightarrow> string \<Rightarrow> refnum \<Rightarrow> refnum \<Rightarrow>
   Model \<Rightarrow> TaskStatus option list" where
  "uploadStatuses env taskID fileName filePath fileSize localPath txID refNum m =
     (case initiateFileUpload taskID fileName filePath fileSize localPath txID m of
        (m1, notice) \<Rightarrow>
          (let m2 = handleTaskStatusMsg notice m1
           in case handleUploadReplyMsg txID refNum m2 of
                (m3, None) \<Rightarrow> [statusOf m1 taskID, statusOf m2 taskID, statusOf m3 taskID]
              | (m3, Some (task, r)) \<Rightarrow>
                  (let out = performFileUpload env task r;
                       m4 = storeTask (uTask out) m3;
                       m5 = handleTaskStatusMsg (last (uSent out)) m4
                   in [statusOf m1 taskID, statusOf m2 taskID, statusOf m3 taskID,
                       statusOf m4 taskID, statusOf m5 taskID])))"

text \<open>The same for a download: \<open>InitiateDownload\<close>, the download reply handled, the
  worker run to its return (if it returns), the worker's notice handled.\<close>

definition downloadStatuses ::
  "dlEnv \<Rightarrow> string \<Rightarrow> string \<Rightarrow> string list \<Rightarrow> refnum \<Rightarrow> refnum \<Rightarrow> 32 word \<Rightarrow> 32 word \<Rightarrow>
   Model \<Rightarrow> TaskStatus option list" where
  "downloadStatuses env taskID fileName filePath txID refNum transferSize fileSize m =
     (let m1 = InitiateDownload taskID fileName filePath txID m
      in case handleDownloadReplyMsg txID refNum transferSize fileSize m1 of
           (m2, None) \<Rightarrow> [statusOf m1 taskID, statusOf m2 taskID]
         | (m2, Some (task, r, sz)) \<Rightarrow>
             (case performFileTransfer env task r sz of
                None \<Rightarrow> [statusOf m1 taskID, statusOf m2 taskID]
              | Some out \<Rightarrow>
                  (let m3 = storeTask (dTask out) m2;
                       m4 = handleTaskStatusMsg (last (dSent out)) m3
                   in [statusOf m1 taskID, statusOf m2 taskID, statusOf m3 taskID,
                       statusOf m4 taskID])))"

section \<open>Example environments\<close>

text \<open>An upload of a three-byte file with an empty information fork, nothing failing
  but what the two arguments say about the sidecar.\<close>

definition plainUpload :: "fsEntry \<Rightarrow> err option \<Rightarrow> ulEnv" where
  "plainUpload entry opened =
     \<lparr>openErr = None, statErr = None, localContent = [1, 2, 3],
      infoFork = forkHeader ''INFO'' 0, sidecar = entry, sidecarOpenErr = opened,
      ulDialErr = None, ulConn = newFile None, ulTicks = []\<rparr>"

text \<open>A download into the empty directory \<open>dl\<close>, nothing failing, the server sending
  the given stream.\<close>

definition plainDownload :: "reader \<Rightarrow> dlEnv" where
  "plainDownload stream =
     \<lparr>dialErr = None, connIn = stream, connOut = newFile None, pathJoin = joinPath,
      pathDir = (\<lambda>p. ''dl''), pathBase = (\<lambda>p. drop 3 p), fsStat = statOf {},
      downloadDir = ''dl'', mkdirErr = None, createErr = None, fileRoom = None,
      resCreateErr = None, resRoom = None, dlTicks = []\<rparr>"

section \<open>Properties of the encodings\<close>

lemma uint32_putUint32: "uint32 (putUint32 v) = v"
  unfolding putUint32_def uint32.simps
  apply (rule bit_word_eqI)
  apply (simp add: bit_simps)
  subgoal for n
    apply (cases "n < 8"; cases "n < 16"; cases "n < 24"; simp)
      apply (auto simp: less_diff_conv2)
    done
  done

lemma length_putUint32: "length (putUint32 v) = 4"
  by (simp add: putUint32_def)

lemma handshake_layout:
  "handshake (a, b, c, d) n = bytesOf ''HTXF'' @ [a, b, c, d] @ putUint32 n @ [0, 0, 0, 0]"
  by (simp add: handshake_def copyAt_def makeBytes_def bytesOf_def putUint32_def
      numeral_eq_Suc)

section \<open>The handshake\<close>

lemma handshake_fields:
  "length (handshake refNum totalSize) = 16
   \<and> take 4 (handshake refNum totalSize) = [0x48, 0x54, 0x58, 0x46]
   \<and> take 4 (handshake refNum totalSize) = bytesOf ''HTXF''
   \<and> take 4 (drop 4 (handshake refNum totalSize)) = refBytes refNum
   \<and> take 4 (drop 8 (handshake refNum totalSize)) = putUint32 totalSize
   \<and> uint32 (take 4 (drop 8 (handshake refNum totalSize))) = totalSize
   \<and> drop 12 (handshake refNum totalSize) = [0, 0, 0, 0]
   \<and> handshake (0x00, 0x00, 0x00, 0x07) 1024 =
       [0x48, 0x54, 0x58, 0x46, 0x00, 0x00, 0x00, 0x07,
        0x00, 0x00, 0x04, 0x00, 0x00, 0x00, 0x00, 0x00]"
proof -
  obtain a b c d where r: "refNum = (a, b, c, d)"
    by (cases refNum) auto
  obtain p q u v where w: "putUint32 totalSize = [p, q, u, v]"
    by (simp add: putUint32_def)
  have tag: "bytesOf ''HTXF'' = [0x48, 0x54, 0x58, 0x46]"
    by (simp add: bytesOf_def)
  have h: "handshake refNum totalSize =
      [0x48, 0x54, 0x58, 0x46, a, b, c, d, p, q, u, v, 0, 0, 0, 0]"
    unfolding r handshake_layout tag w by simp
  have mid: "take 4 (drop 8 (handshake refNum totalSize)) = putUint32 totalSize"
    unfolding h w by simp
  have dec: "uint32 (take 4 (drop 8 (handshake refNum totalSize))) = totalSize"
    unfolding mid by (rule uint32_putUint32)
  have ref: "take 4 (drop 4 (handshake refNum totalSize)) = refBytes refNum"
    unfolding h by (simp add: r)
  have conc: "handshake (0x00, 0x00, 0x00, 0x07) 1024 =
       [0x48, 0x54, 0x58, 0x46, 0x00, 0x00, 0x00, 0x07,
        0x00, 0x00, 0x04, 0x00, 0x00, 0x00, 0x00, 0x00]"
    by (simp add: handshake_layout tag putUint32_def)
  have len: "length (handshake refNum totalSize) = 16"
    unfolding h by simp
  have t4: "take 4 (handshake refNum totalSize) = [0x48, 0x54, 0x58, 0x46]"
    unfolding h by simp
  have d12: "drop 12 (handshake refNum totalSize) = [0, 0, 0, 0]"
    unfolding h by simp
  from len t4 ref mid dec d12 conc show ?thesis
    unfolding tag by blast
qed


section \<open>The task manager\<close>

lemma getCompletedLoop_registered:
  "set ids \<subseteq> dom ts \<Longrightarrow> length acc \<le> nat limit \<Longrightarrow>
   getCompletedLoop ts ids limit acc =
     Inr (acc @ take (nat limit - length acc) (filter terminal (map (\<lambda>tid. the (ts tid)) ids)))"
proof (induction ids arbitrary: acc)
  case Nil
  then show ?case by simp
next
  case (Cons tid ids)
  from Cons.prems obtain task where t: "ts tid = Some task" by auto
  show ?case
  proof (cases "int (length acc) < limit")
    case False
    with Cons.prems have "nat limit - length acc = 0" by linarith
    with False show ?thesis by simp
  next
    case True
    then have lt: "length acc < nat limit" by linarith
    then obtain d where d: "nat limit - length acc = Suc d" by (metis Suc_diff_Suc)
    show ?thesis
    proof (cases "terminal task")
      case True
      have "set ids \<subseteq> dom ts" using Cons.prems by simp
      moreover have "length (acc @ [task]) \<le> nat limit" using lt by simp
      ultimately have "getCompletedLoop ts ids limit (acc @ [task]) =
        Inr ((acc @ [task]) @ take (nat limit - length (acc @ [task])) (filter terminal (map (\<lambda>tid. the (ts tid)) ids)))"
        by (rule Cons.IH)
      moreover have "nat limit - length (acc @ [task]) = d" using d by simp
      moreover have "Status task = TaskCompleted \<or> Status task = TaskFailed"
        using True by (simp add: terminal_def)
      ultimately show ?thesis using True \<open>int (length acc) < limit\<close> t d
        by simp
    next
      case False
      have "getCompletedLoop ts ids limit acc =
        Inr (acc @ take (nat limit - length acc) (filter terminal (map (\<lambda>tid. the (ts tid)) ids)))"
        using Cons.prems by (intro Cons.IH) auto
      moreover have "\<not> (Status task = TaskCompleted \<or> Status task = TaskFailed)"
        using False by (simp add: terminal_def)
      ultimately show ?thesis using False \<open>int (length acc) < limit\<close> t
        by simp
    qed
  qed
qed

lemma GetCompleted_eq:
  "registered tm \<Longrightarrow> GetCompleted tm limit = Inr (take (nat limit) (filter terminal (newestFirst tm)))"
  using getCompletedLoop_registered [of "rev (order tm)" "tasks tm" "[]" limit]
  by (simp add: GetCompleted_def registered_def newestFirst_def)

lemma registered_New: "registered NewTaskManager"
  by (simp add: registered_def NewTaskManager_def)

lemma registered_Add: "registered tm \<Longrightarrow> registered (Add task tm)"
  by (auto simp: registered_def Add_def)

lemma registered_setStatus: "registered tm \<Longrightarrow> registered (setStatus tid st tm)"
  by (auto simp: registered_def setStatus_def split: option.splits)

text \<open>
  C6, as the code has it. For a manager in which every ordered ID has its task,
  \<open>GetCompleted limit\<close> returns without a panic; the result has at most \<open>limit\<close> tasks
  (none when \<open>limit\<close> is zero or negative), each Completed or Failed, and it is exactly the
  first \<open>limit\<close> terminal tasks in the reverse of the order in which the tasks were added:
  newest first means most recently added first, whatever the order in which they finished.
\<close>

theorem GetCompleted_newest_added_first:
  assumes "registered tm"
  shows "\<exists>r. GetCompleted tm limit = Inr r
           \<and> length r \<le> nat limit
           \<and> (\<forall>task \<in> set r. Status task = TaskCompleted \<or> Status task = TaskFailed)
           \<and> r = take (nat limit) (filter terminal (newestFirst tm))"
proof -
  let ?r = "take (nat limit) (filter terminal (newestFirst tm))"
  have "GetCompleted tm limit = Inr ?r" using assms by (rule GetCompleted_eq)
  moreover have "length ?r \<le> nat limit" by simp
  moreover have "\<forall>task \<in> set ?r. Status task = TaskCompleted \<or> Status task = TaskFailed"
    by (auto dest!: in_set_takeD simp: terminal_def)
  ultimately show ?thesis by blast
qed

lemmas tm_eval = GetCompleted_def setStatus_def Add_def NewTaskManager_def newDownloadTask_def
  registered_def newestFirst_def terminal_def

text \<open>Tasks A, B, C added in this order and all completed: \<open>GetCompleted 2\<close> is C, B.\<close>

theorem GetCompleted_newest_added_first_witness:
  "registered
     (setStatus ''C'' TaskCompleted (setStatus ''B'' TaskCompleted (setStatus ''A'' TaskCompleted
       (Add (newDownloadTask ''C'' ''c'' []) (Add (newDownloadTask ''B'' ''b'' [])
         (Add (newDownloadTask ''A'' ''a'' []) NewTaskManager))))))
   \<and> GetCompleted
     (setStatus ''C'' TaskCompleted (setStatus ''B'' TaskCompleted (setStatus ''A'' TaskCompleted
       (Add (newDownloadTask ''C'' ''c'' []) (Add (newDownloadTask ''B'' ''b'' [])
         (Add (newDownloadTask ''A'' ''a'' []) NewTaskManager)))))) 2
     = Inr [(newDownloadTask ''C'' ''c'' [])\<lparr>Status := TaskCompleted\<rparr>,
            (newDownloadTask ''B'' ''b'' [])\<lparr>Status := TaskCompleted\<rparr>]"
  using GetCompleted_newest_added_first
    [of "setStatus ''C'' TaskCompleted (setStatus ''B'' TaskCompleted (setStatus ''A'' TaskCompleted
       (Add (newDownloadTask ''C'' ''c'' []) (Add (newDownloadTask ''B'' ''b'' [])
         (Add (newDownloadTask ''A'' ''a'' []) NewTaskManager)))))" 2]
  by (simp add: tm_eval)

text \<open>
  C6 as stated fails where tasks finish in another order than they were added: C, B, A are
  added in this order and finish in the order A, B, C; \<open>GetCompleted 2\<close> is A, B and not
  C, B.
\<close>

theorem GetCompleted_completion_order_counterexample:
  "GetCompleted
     (setStatus ''C'' TaskCompleted (setStatus ''B'' TaskCompleted (setStatus ''A'' TaskCompleted
       (Add (newDownloadTask ''A'' ''a'' []) (Add (newDownloadTask ''B'' ''b'' [])
         (Add (newDownloadTask ''C'' ''c'' []) NewTaskManager)))))) 2
     = Inr [(newDownloadTask ''A'' ''a'' [])\<lparr>Status := TaskCompleted\<rparr>,
            (newDownloadTask ''B'' ''b'' [])\<lparr>Status := TaskCompleted\<rparr>]
   \<and> GetCompleted
     (setStatus ''C'' TaskCompleted (setStatus ''B'' TaskCompleted (setStatus ''A'' TaskCompleted
       (Add (newDownloadTask ''A'' ''a'' []) (Add (newDownloadTask ''B'' ''b'' [])
         (Add (newDownloadTask ''C'' ''c'' []) NewTaskManager)))))) 2
     \<noteq> Inr [(newDownloadTask ''C'' ''c'' [])\<lparr>Status := TaskCompleted\<rparr>,
            (newDownloadTask ''B'' ''b'' [])\<lparr>Status := TaskCompleted\<rparr>]"
  by (simp add: tm_eval)


section \<open>The download path\<close>

lemma resolveLoop_first_free:
  assumes free: "stat (newPath k) = StatNotExist"
    and used: "\<forall>j. i \<le> j \<and> j < k \<longrightarrow> stat (newPath j) \<noteq> StatNotExist"
    and le: "i \<le> k"
  shows "resolveLoop stat newPath i = Some (newPath k)"
  using used le
proof (induction "nat (k - i)" arbitrary: i)
  case 0
  then have "i = k" by simp
  with free show ?case by (simp add: resolveLoop.simps)
next
  case (Suc n)
  then have lt: "i < k" by linarith
  with Suc.prems have busy: "stat (newPath i) \<noteq> StatNotExist" by simp
  have "resolveLoop stat newPath (i + 1) = Some (newPath k)"
  proof (rule Suc.hyps(1))
    show "n = nat (k - (i + 1))" using Suc.hyps(2) by linarith
    show "\<forall>j. i + 1 \<le> j \<and> j < k \<longrightarrow> stat (newPath j) \<noteq> StatNotExist"
      using Suc.prems(1) by simp
    show "i + 1 \<le> k" using lt by simp
  qed
  with busy show ?case by (subst resolveLoop.simps) simp
qed

lemma extScan_suffix: "i \<le> length p \<Longrightarrow> \<exists>n \<le> length p. extScan p i = drop n p"
proof (induction i)
  case 0
  show ?case by (rule exI [of _ "length p"]) simp
next
  case (Suc i)
  then obtain n where n: "n \<le> length p" "extScan p i = drop n p" by auto
  show ?case
  proof (cases "p ! i = CHR ''/''")
    case True
    then show ?thesis by (auto intro: exI [of _ "length p"])
  next
    case False
    show ?thesis
    proof (cases "p ! i = CHR ''.''")
      case True
      with False Suc.prems show ?thesis by (auto intro: exI [of _ i])
    next
      case dot: False
      with False n show ?thesis by auto
    qed
  qed
qed

lemma TrimSuffix_Ext: "TrimSuffix f (Ext f) @ Ext f = f"
proof -
  obtain n where n: "n \<le> length f" "Ext f = drop n f"
    using extScan_suffix [of "length f" f] by (auto simp: Ext_def)
  then have "HasSuffix f (Ext f)" by (simp add: HasSuffix_def)
  then show ?thesis using n by (simp add: TrimSuffix_def)
qed

text \<open>
  C7. On a file system given by the set of existing paths, \<open>resolveDownloadPath\<close> returns
  the joined target path unchanged when it does not exist; when it exists, and \<open>k \<ge> 1\<close> is
  the first index whose numbered candidate does not exist, it returns that candidate. The
  candidate of index \<open>k\<close> is the file name with \<open>" (k)"\<close> put between the name without
  its extension and the extension, the two parts making up the file name again.
\<close>

theorem resolveDownloadPath_first_unused:
  "(join dir f \<notin> existing \<longrightarrow>
      resolveDownloadPath join (statOf existing) dir f = Some (join dir f))
   \<and> (join dir f \<in> existing \<and> 1 \<le> k
        \<and> join dir (numbered (TrimSuffix f (Ext f)) k (Ext f)) \<notin> existing
        \<and> (\<forall>j. 1 \<le> j \<and> j < k \<longrightarrow>
              join dir (numbered (TrimSuffix f (Ext f)) j (Ext f)) \<in> existing) \<longrightarrow>
      resolveDownloadPath join (statOf existing) dir f =
        Some (join dir (numbered (TrimSuffix f (Ext f)) k (Ext f))))
   \<and> TrimSuffix f (Ext f) @ Ext f = f
   \<and> numbered stem k ext = stem @ '' ('' @ itoa k @ '')'' @ ext"
proof (intro conjI impI)
  assume "join dir f \<notin> existing"
  then show "resolveDownloadPath join (statOf existing) dir f = Some (join dir f)"
    by (simp add: resolveDownloadPath_def statOf_def)
next
  let ?np = "\<lambda>i. join dir (numbered (TrimSuffix f (Ext f)) i (Ext f))"
  assume a: "join dir f \<in> existing \<and> 1 \<le> k \<and> ?np k \<notin> existing
      \<and> (\<forall>j. 1 \<le> j \<and> j < k \<longrightarrow> ?np j \<in> existing)"
  have "resolveLoop (statOf existing) ?np 1 = Some (?np k)"
    by (rule resolveLoop_first_free) (use a in \<open>auto simp: statOf_def\<close>)
  then show "resolveDownloadPath join (statOf existing) dir f = Some (?np k)"
    using a by (simp add: resolveDownloadPath_def statOf_def Let_def)
next
  show "TrimSuffix f (Ext f) @ Ext f = f" by (rule TrimSuffix_Ext)
next
  show "numbered stem k ext = stem @ '' ('' @ itoa k @ '')'' @ ext"
    by (simp add: numbered_def)
qed

lemmas path_eval = joinPath_def Ext_def TrimSuffix_def HasSuffix_def numbered_def itoa_def showNat.simps digitChar_def

text \<open>With \<open>a.txt\<close> and \<open>a (1).txt\<close> present the result is \<open>a (2).txt\<close>; in an empty
  directory it is \<open>a.txt\<close>.\<close>

theorem resolveDownloadPath_first_unused_witness:
  "resolveDownloadPath joinPath (statOf {''dl/a.txt'', ''dl/a (1).txt''}) ''dl'' ''a.txt''
     = Some ''dl/a (2).txt''
   \<and> resolveDownloadPath joinPath (statOf {}) ''dl'' ''a.txt'' = Some ''dl/a.txt''"
proof -
  have j: "\<And>j::int. 1 \<le> j \<and> j < 2 \<longleftrightarrow> j = 1" by auto
  have "resolveDownloadPath joinPath (statOf {''dl/a.txt'', ''dl/a (1).txt''}) ''dl'' ''a.txt''
     = Some ''dl/a (2).txt''"
    using resolveDownloadPath_first_unused
      [of joinPath "''dl''" "''a.txt''" "{''dl/a.txt'', ''dl/a (1).txt''}" 2]
    by (simp add: path_eval j)
  moreover have "resolveDownloadPath joinPath (statOf {}) ''dl'' ''a.txt'' = Some ''dl/a.txt''"
    using resolveDownloadPath_first_unused [of joinPath "''dl''" "''a.txt''" "{}"]
    by (simp add: joinPath_def)
  ultimately show ?thesis by simp
qed


section \<open>Readers, writers and the copy loop\<close>

lemma Read_bytes:
  "Read k r = ((bs, e), r') \<Longrightarrow> rdBytes r = bs @ rdBytes r' \<and> length bs \<le> k"
  by (cases r) (auto simp: rdBytes_def split: if_splits)

lemma Read_errors:
  "Read k r = ((bs, e), r') \<Longrightarrow>
     snd ` set r' \<subseteq> snd ` set r \<and> (e = Some EOF \<or> e = None \<or> e \<in> snd ` set r)"
  by (cases r) (force split: if_splits)+

lemma Write_unbounded:
  "wroom w = None \<Longrightarrow> Write bs w = (None, w\<lparr>wbuf := wbuf w @ bs\<rparr>)"
  by (simp add: Write_def)

lemma Write_facts:
  "Write bs w = (e, w') \<Longrightarrow>
     (\<exists>put. wbuf w' = wbuf w @ put \<and> put = take (length put) bs \<and> (e = None \<longrightarrow> put = bs))
     \<and> (e \<noteq> None \<longrightarrow> e = Some (OSError ''write'') \<and> wroom w \<noteq> None)
     \<and> (wroom w = None \<longrightarrow> wroom w' = None)"
  by (auto simp: Write_def split: option.splits if_splits)

lemma copyStep_bytes:
  assumes "copyStep sz written c = (fl, written', c')" and "written < sz"
  shows "\<exists>consumed put.
        rdBytes (cSrc c) = consumed @ rdBytes (cSrc c')
      \<and> wbuf (cDst c') = wbuf (cDst c) @ put
      \<and> put = take (length put) consumed
      \<and> int (length consumed) \<le> sz - written
      \<and> written \<le> written' \<and> written' \<le> written + int (length consumed)
      \<and> ((\<forall>e. fl \<noteq> Return e) \<longrightarrow> put = consumed \<and> written' = written + int (length consumed))"
proof -
  let ?k = "nat (if sz - written < 32 * 1024 then sz - written else 32 * 1024)"
  obtain buf rerr src' where rd: "Read ?k (cSrc c) = ((buf, rerr), src')"
    by (metis prod.collapse)
  from Read_bytes [OF rd] have b: "rdBytes (cSrc c) = buf @ rdBytes src'" "length buf \<le> ?k"
    by auto
  from b(2) assms(2) have len: "int (length buf) \<le> sz - written" by (auto split: if_splits)
  show ?thesis
  proof (cases "buf = []")
    case True
    with assms rd b show ?thesis
      by (auto simp: copyStep_def Let_def split: option.splits if_splits)
  next
    case False
    obtain ew dst' where wr: "Write buf (cDst c) = (ew, dst')" by (metis prod.collapse)
    from Write_facts [OF wr] obtain put where
      p: "wbuf dst' = wbuf (cDst c) @ put" "put = take (length put) buf" "ew = None \<longrightarrow> put = buf"
      by blast
    show ?thesis
    proof (cases ew)
      case None
      with assms rd b False wr p len show ?thesis
        by (auto simp: copyStep_def Let_def split: option.splits if_splits)
    next
      case (Some e)
      with assms rd False wr have "fl = Return e" "written' = written" "cSrc c' = src'" "cDst c' = dst'"
        by (auto simp: copyStep_def Let_def)
      with b p len show ?thesis by auto
    qed
  qed
qed

lemma copyLoop_bytes:
  "copyLoop sz written c = (e, written', c') \<Longrightarrow>
   \<exists>consumed put.
        rdBytes (cSrc c) = consumed @ rdBytes (cSrc c')
      \<and> wbuf (cDst c') = wbuf (cDst c) @ put
      \<and> put = take (length put) consumed
      \<and> int (length consumed) \<le> max 0 (sz - written)
      \<and> written \<le> written' \<and> written' \<le> written + int (length consumed)
      \<and> (e = None \<longrightarrow> put = consumed \<and> written' = written + int (length consumed))"
proof (induction sz written c arbitrary: e written' c' rule: copyLoop.induct)
  case (1 sz written c)
  show ?case
  proof (cases "written < sz")
    case False
    with "1.prems" show ?thesis by (simp add: copyLoop.simps)
  next
    case True
    obtain fl w1 c1 where st: "copyStep sz written c = (fl, w1, c1)"
      by (metis prod.collapse)
    from copyStep_bytes [OF st True] obtain consumed1 put1 where s1:
      "rdBytes (cSrc c) = consumed1 @ rdBytes (cSrc c1)"
      "wbuf (cDst c1) = wbuf (cDst c) @ put1"
      "put1 = take (length put1) consumed1"
      "int (length consumed1) \<le> sz - written"
      "written \<le> w1" "w1 \<le> written + int (length consumed1)"
      "(\<forall>e. fl \<noteq> Return e) \<longrightarrow> put1 = consumed1 \<and> w1 = written + int (length consumed1)"
      by blast
    show ?thesis
    proof (cases fl)
      case Continue
      with "1.prems" True st have loop: "copyLoop sz w1 c1 = (e, written', c')"
        by (simp add: copyLoop.simps [of sz written c])
      from "1.IH" [OF True st [symmetric] refl refl Continue loop]
      obtain consumed2 put2 where s2:
        "rdBytes (cSrc c1) = consumed2 @ rdBytes (cSrc c')"
        "wbuf (cDst c') = wbuf (cDst c1) @ put2"
        "put2 = take (length put2) consumed2"
        "int (length consumed2) \<le> max 0 (sz - w1)"
        "w1 \<le> written'" "written' \<le> w1 + int (length consumed2)"
        "e = None \<longrightarrow> put2 = consumed2 \<and> written' = w1 + int (length consumed2)"
        by blast
      from s1(7) Continue have eq1: "put1 = consumed1" "w1 = written + int (length consumed1)"
        by auto
      have "put1 @ put2 = take (length (put1 @ put2)) (consumed1 @ consumed2)"
        using eq1 s2(3) by simp
      moreover have "int (length (consumed1 @ consumed2)) \<le> max 0 (sz - written)"
        using s1(4) s2(4) eq1 by auto
      ultimately show ?thesis
        using s1 s2 eq1
        by (intro exI [of _ "consumed1 @ consumed2"] exI [of _ "put1 @ put2"]) auto
    next
      case Break
      with "1.prems" True st have "e = None" "written' = w1" "c' = c1"
        by (auto simp: copyLoop.simps [of sz written c])
      with s1 Break show ?thesis
        by (intro exI [of _ consumed1] exI [of _ put1]) auto
    next
      case (Return x)
      with "1.prems" True st have "e = Some x" "written' = w1" "c' = c1"
        by (auto simp: copyLoop.simps [of sz written c])
      with s1 show ?thesis
        by (intro exI [of _ consumed1] exI [of _ put1]) auto
    qed
  qed
qed

lemma copyStep_task:
  "copyStep sz written c = (fl, written', c') \<Longrightarrow>
     cTask c' = (cTask c)\<lparr>TransferredBytes := TransferredBytes (cTask c')\<rparr>
     \<and> TransferredBytes (cTask c') =
         (if written' = written then TransferredBytes (cTask c) else written')"
  by (auto simp: copyStep_def Let_def split: prod.splits option.splits if_splits)

lemma Task_update_twice:
  "t1 = t\<lparr>TransferredBytes := a\<rparr> \<Longrightarrow> t2 = t1\<lparr>TransferredBytes := b\<rparr> \<Longrightarrow>
   t2 = t\<lparr>TransferredBytes := b\<rparr>"
  by simp

lemma copyLoop_task:
  "copyLoop sz written c = (e, written', c') \<Longrightarrow> written \<le> written' \<and>
     cTask c' = (cTask c)\<lparr>TransferredBytes := TransferredBytes (cTask c')\<rparr>
     \<and> TransferredBytes (cTask c') =
         (if written' = written then TransferredBytes (cTask c) else written')"
proof (induction sz written c arbitrary: e written' c' rule: copyLoop.induct)
  case (1 sz written c)
  show ?case
  proof (cases "written < sz")
    case False
    with "1.prems" show ?thesis by (simp add: copyLoop.simps)
  next
    case True
    obtain fl w1 c1 where st: "copyStep sz written c = (fl, w1, c1)"
      by (metis prod.collapse)
    note t1 = copyStep_task [OF st]
    from copyStep_bytes [OF st True] have le1: "written \<le> w1" by blast
    show ?thesis
    proof (cases fl)
      case Continue
      with "1.prems" True st have loop: "copyLoop sz w1 c1 = (e, written', c')"
        by (simp add: copyLoop.simps [of sz written c])
      note t2 = "1.IH" [OF True st [symmetric] refl refl Continue loop]
      from t2 have le2: "w1 \<le> written'" by blast
      have a: "cTask c' = (cTask c)\<lparr>TransferredBytes := TransferredBytes (cTask c')\<rparr>"
        using t1 t2 by (blast intro: Task_update_twice)
      have b1: "TransferredBytes (cTask c1) =
          (if w1 = written then TransferredBytes (cTask c) else w1)"
        using t1 by blast
      have b2: "TransferredBytes (cTask c') =
          (if written' = w1 then TransferredBytes (cTask c1) else written')"
        using t2 by blast
      have b: "TransferredBytes (cTask c') =
          (if written' = written then TransferredBytes (cTask c) else written')"
        using b1 b2 le1 le2 by (auto split: if_splits)
      from a b le1 le2 show ?thesis by linarith
    next
      case Break
      with "1.prems" True st have eqs: "written' = w1" "c' = c1"
        by (auto simp: copyLoop.simps [of sz written c])
      from t1 le1 show ?thesis unfolding eqs by blast
    next
      case (Return x)
      with "1.prems" True st have eqs: "written' = w1" "c' = c1"
        by (auto simp: copyLoop.simps [of sz written c])
      from t1 le1 show ?thesis unfolding eqs by blast
    qed
  qed
qed

lemma copyStep_error:
  assumes "copyStep sz written c = (fl, written', c')"
  shows "snd ` set (cSrc c') \<subseteq> snd ` set (cSrc c)
       \<and> (wroom (cDst c) = None \<longrightarrow> wroom (cDst c') = None)
       \<and> (fl = Return x \<longrightarrow> (x \<noteq> EOF \<and> Some x \<in> snd ` set (cSrc c))
                              \<or> (x = OSError ''write'' \<and> wroom (cDst c) \<noteq> None))"
proof -
  let ?k = "nat (if sz - written < 32 * 1024 then sz - written else 32 * 1024)"
  obtain buf rerr src' where rd: "Read ?k (cSrc c) = ((buf, rerr), src')"
    by (metis prod.collapse)
  obtain ew dst' where wr: "Write buf (cDst c) = (ew, dst')" by (metis prod.collapse)
  have A: "cSrc c' = src'"
    using assms rd wr by (auto simp: copyStep_def Let_def split: option.splits if_splits)
  have B: "cDst c' = cDst c \<or> cDst c' = dst'"
    using assms rd wr by (auto simp: copyStep_def Let_def split: option.splits if_splits)
  have C: "fl = Return x \<longrightarrow> ew = Some x \<or> (rerr = Some x \<and> x \<noteq> EOF)"
    using assms rd wr by (auto simp: copyStep_def Let_def split: option.splits if_splits)
  from Read_errors [OF rd] have
    sub: "snd ` set src' \<subseteq> snd ` set (cSrc c)" and
    re: "rerr = Some EOF \<or> rerr = None \<or> rerr \<in> snd ` set (cSrc c)"
    by blast+
  from Write_facts [OF wr] have
    we: "ew \<noteq> None \<longrightarrow> ew = Some (OSError ''write'') \<and> wroom (cDst c) \<noteq> None" and
    wn: "wroom (cDst c) = None \<longrightarrow> wroom dst' = None"
    by blast+
  have 1: "snd ` set (cSrc c') \<subseteq> snd ` set (cSrc c)" using A sub by simp
  have 2: "wroom (cDst c) = None \<longrightarrow> wroom (cDst c') = None" using B wn by auto
  have 3: "fl = Return x \<longrightarrow> (x \<noteq> EOF \<and> Some x \<in> snd ` set (cSrc c))
                              \<or> (x = OSError ''write'' \<and> wroom (cDst c) \<noteq> None)"
    using C re we by auto
  from 1 2 3 show ?thesis by blast
qed

lemma copyLoop_error:
  "copyLoop sz written c = (Some x, written', c') \<Longrightarrow>
     (x \<noteq> EOF \<and> Some x \<in> snd ` set (cSrc c))
     \<or> (x = OSError ''write'' \<and> wroom (cDst c) \<noteq> None)"
proof (induction sz written c arbitrary: written' c' rule: copyLoop.induct)
  case (1 sz written c)
  show ?case
  proof (cases "written < sz")
    case False
    with "1.prems" show ?thesis by (simp add: copyLoop.simps)
  next
    case True
    obtain fl w1 c1 where st: "copyStep sz written c = (fl, w1, c1)"
      by (metis prod.collapse)
    note e1 = copyStep_error [OF st, of x]
    show ?thesis
    proof (cases fl)
      case Continue
      with "1.prems" True st have loop: "copyLoop sz w1 c1 = (Some x, written', c')"
        by (simp add: copyLoop.simps [of sz written c])
      note e2 = "1.IH" [OF True st [symmetric] refl refl Continue loop]
      from e1 e2 show ?thesis by auto
    next
      case Break
      with "1.prems" True st show ?thesis
        by (auto simp: copyLoop.simps [of sz written c])
    next
      case (Return y)
      with "1.prems" True st have "y = x"
        by (auto simp: copyLoop.simps [of sz written c])
      with e1 Return show ?thesis by simp
    qed
  qed
qed


lemma Read_clean:
  "rdClean r \<Longrightarrow> Read k r = ((bs, e), r') \<Longrightarrow>
     rdClean r' \<and> (e = None \<or> (e = Some EOF \<and> r = [] \<and> r' = [] \<and> bs = []))"
  by (cases r) (force simp: rdClean_def split: if_splits)+

lemma copyStep_clean:
  assumes "copyStep sz written c = (fl, written', c')"
    and "rdClean (cSrc c)" and "wroom (cDst c) = None"
  shows "rdClean (cSrc c') \<and> wroom (cDst c') = None
       \<and> (fl = Continue \<or> (fl = Break \<and> cSrc c' = []))"
proof -
  let ?k = "nat (if sz - written < 32 * 1024 then sz - written else 32 * 1024)"
  obtain buf rerr src' where rd: "Read ?k (cSrc c) = ((buf, rerr), src')"
    by (metis prod.collapse)
  note rc = Read_clean [OF assms(2) rd]
  note wu = Write_unbounded [OF assms(3), of buf]
  from assms(1,3) rd rc wu show ?thesis
    by (auto simp: copyStep_def Let_def split: option.splits if_splits)
qed

lemma copyLoop_clean:
  "copyLoop sz written c = (e, written', c') \<Longrightarrow> rdClean (cSrc c) \<Longrightarrow>
   wroom (cDst c) = None \<Longrightarrow>
     e = None \<and> (sz \<le> written' \<or> cSrc c' = [])"
proof (induction sz written c arbitrary: e written' c' rule: copyLoop.induct)
  case (1 sz written c)
  show ?case
  proof (cases "written < sz")
    case False
    with "1.prems" show ?thesis by (simp add: copyLoop.simps)
  next
    case True
    obtain fl w1 c1 where st: "copyStep sz written c = (fl, w1, c1)"
      by (metis prod.collapse)
    note k1 = copyStep_clean [OF st "1.prems"(2,3)]
    show ?thesis
    proof (cases fl)
      case Continue
      with "1.prems" True st have loop: "copyLoop sz w1 c1 = (e, written', c')"
        by (simp add: copyLoop.simps [of sz written c])
      from "1.IH" [OF True st [symmetric] refl refl Continue loop] k1 show ?thesis
        by simp
    next
      case Break
      with "1.prems" True st k1 show ?thesis
        by (auto simp: copyLoop.simps [of sz written c])
    next
      case (Return y)
      with k1 show ?thesis by simp
    qed
  qed
qed


lemma copyWithProgressUpload_eq:
  "copyWithProgressUpload dst src sz task ticks = copyWithProgress dst src sz task ticks"
  by (simp add: copyWithProgressUpload_def copyWithProgress_def)

lemma copyWithProgress_loop:
  assumes "copyLoop sz 0 \<lparr>cSrc = src, cDst = dst, cTask = task\<lparr>LastBytes := 0\<rparr>, cSent = [],
             cTicks = ticks\<rparr> = (e, written, c)"
  shows "fst (copyWithProgress dst src sz task ticks) = e
       \<and> cSrc (snd (copyWithProgress dst src sz task ticks)) = cSrc c
       \<and> cDst (snd (copyWithProgress dst src sz task ticks)) = cDst c
       \<and> cTask (snd (copyWithProgress dst src sz task ticks)) = cTask c"
  using assms by (simp add: copyWithProgress_def split: option.splits)

lemma copyWithProgress_bytes:
  "\<exists>consumed put.
        rdBytes src = consumed @ rdBytes (cSrc (snd (copyWithProgress dst src sz task ticks)))
      \<and> wbuf (cDst (snd (copyWithProgress dst src sz task ticks))) = wbuf dst @ put
      \<and> put = take (length put) consumed
      \<and> int (length consumed) \<le> max 0 sz
      \<and> (fst (copyWithProgress dst src sz task ticks) = None \<longrightarrow>
           put = consumed
           \<and> (TransferredBytes task = 0 \<longrightarrow>
                TransferredBytes (cTask (snd (copyWithProgress dst src sz task ticks)))
                  = int (length consumed)))"
proof -
  let ?c0 = "\<lparr>cSrc = src, cDst = dst, cTask = task\<lparr>LastBytes := 0\<rparr>, cSent = [],
             cTicks = ticks\<rparr>"
  obtain e written c where loop: "copyLoop sz 0 ?c0 = (e, written, c)"
    by (metis prod.collapse)
  note w = copyWithProgress_loop [OF loop]
  from copyLoop_bytes [OF loop] obtain consumed put where b:
    "rdBytes src = consumed @ rdBytes (cSrc c)"
    "wbuf (cDst c) = wbuf dst @ put"
    "put = take (length put) consumed"
    "int (length consumed) \<le> max 0 sz"
    "e = None \<longrightarrow> put = consumed \<and> written = int (length consumed)"
    by auto
  from copyLoop_task [OF loop] have
    t: "TransferredBytes (cTask c) = (if written = 0 then TransferredBytes task else written)"
    by simp
  have "e = None \<longrightarrow> TransferredBytes task = 0 \<longrightarrow>
      TransferredBytes (cTask c) = int (length consumed)"
    using t b(5) by auto
  with b w show ?thesis
    by (intro exI [of _ consumed] exI [of _ put]) simp
qed

text \<open>
  C9. Whatever the destination, the source, the size and the ticker, \<open>copyWithProgress\<close>
  takes from the source a prefix of at most \<open>size\<close> bytes (none for a size that is not
  positive) and leaves the rest in it; what it adds to the destination is a prefix of
  what it took, so at most \<open>size\<close> bytes. Each pass of the loop, entered with
  \<open>written < size\<close>, takes at most \<open>size - written\<close> bytes.
\<close>

theorem copyWithProgress_at_most_size:
  "(\<exists>consumed put.
        rdBytes src = consumed @ rdBytes (cSrc (snd (copyWithProgress dst src sz task ticks)))
      \<and> wbuf (cDst (snd (copyWithProgress dst src sz task ticks))) = wbuf dst @ put
      \<and> put = take (length put) consumed
      \<and> int (length consumed) \<le> max 0 sz)
   \<and> (written < sz \<longrightarrow>
        (\<exists>chunk. rdBytes (cSrc c) = chunk @ rdBytes (cSrc (snd (snd (copyStep sz written c))))
           \<and> int (length chunk) \<le> sz - written))"
proof (intro conjI impI)
  show "\<exists>consumed put.
        rdBytes src = consumed @ rdBytes (cSrc (snd (copyWithProgress dst src sz task ticks)))
      \<and> wbuf (cDst (snd (copyWithProgress dst src sz task ticks))) = wbuf dst @ put
      \<and> put = take (length put) consumed
      \<and> int (length consumed) \<le> max 0 sz"
    using copyWithProgress_bytes [of src dst sz task ticks] by blast
next
  assume lt: "written < sz"
  obtain fl w' c' where st: "copyStep sz written c = (fl, w', c')"
    by (metis prod.collapse)
  from copyStep_bytes [OF st lt] st
  show "\<exists>chunk. rdBytes (cSrc c) = chunk @ rdBytes (cSrc (snd (snd (copyStep sz written c))))
           \<and> int (length chunk) \<le> sz - written"
    by auto
qed

text \<open>A source offering five bytes for a size of three: three are written, two stay.\<close>

theorem copyWithProgress_at_most_size_witness:
  "wbuf (cDst (snd (copyWithProgress (newFile None) [([1, 2, 3, 4, 5], None)] 3
       (newDownloadTask ''t'' ''f'' []) []))) = [1, 2, 3]
   \<and> rdBytes (cSrc (snd (copyWithProgress (newFile None) [([1, 2, 3, 4, 5], None)] 3
       (newDownloadTask ''t'' ''f'' []) []))) = [4, 5]
   \<and> (0::int) < 3
   \<and> rdBytes (cSrc (snd (snd (copyStep 3 0
        \<lparr>cSrc = [([1, 2, 3, 4, 5], None)], cDst = newFile None,
         cTask = newDownloadTask ''t'' ''f'' [], cSent = [], cTicks = []\<rparr>)))) = [4, 5]"
  using copyWithProgress_at_most_size [of "[([1, 2, 3, 4, 5], None)]" "newFile None" 3
      "newDownloadTask ''t'' ''f'' []" "[]" 0
      "\<lparr>cSrc = [([1, 2, 3, 4, 5], None)], cDst = newFile None,
         cTask = newDownloadTask ''t'' ''f'' [], cSent = [], cTicks = []\<rparr>"]
  by (simp add: copyWithProgress_def copyLoop.simps copyStep_def newFile_def Write_def
      newDownloadTask_def rdBytes_def)

lemma copyWithProgress_clean:
  assumes "rdClean src" and "wroom dst = None"
  shows "fst (copyWithProgress dst src sz task ticks) = None
       \<and> wbuf (cDst (snd (copyWithProgress dst src sz task ticks)))
           = wbuf dst @ take (nat sz) (rdBytes src)"
proof -
  let ?c0 = "\<lparr>cSrc = src, cDst = dst, cTask = task\<lparr>LastBytes := 0\<rparr>, cSent = [],
             cTicks = ticks\<rparr>"
  obtain e written c where loop: "copyLoop sz 0 ?c0 = (e, written, c)"
    by (metis prod.collapse)
  note w = copyWithProgress_loop [OF loop]
  from copyLoop_clean [OF loop] assms have k: "e = None" "sz \<le> written \<or> cSrc c = []"
    by auto
  from copyLoop_bytes [OF loop] k(1) obtain consumed where b:
    "rdBytes src = consumed @ rdBytes (cSrc c)"
    "wbuf (cDst c) = wbuf dst @ consumed"
    "int (length consumed) \<le> max 0 sz"
    "written = int (length consumed)"
    by auto
  have "consumed = take (nat sz) (rdBytes src)"
  proof (cases "sz \<le> written")
    case True
    with b(3,4) have "length consumed = nat sz" by auto
    with b(1) show ?thesis by simp
  next
    case False
    with k(2) have "rdBytes (cSrc c) = []" by (simp add: rdBytes_def)
    with b(1,3) show ?thesis by auto
  qed
  with b(2) w k(1) show ?thesis by simp
qed

lemma copyWithProgress_error:
  assumes "fst (copyWithProgress dst src sz task ticks) = Some x"
  shows "(x \<noteq> EOF \<and> Some x \<in> snd ` set src) \<or> (x = OSError ''write'' \<and> wroom dst \<noteq> None)"
proof -
  let ?c0 = "\<lparr>cSrc = src, cDst = dst, cTask = task\<lparr>LastBytes := 0\<rparr>, cSent = [],
             cTicks = ticks\<rparr>"
  obtain e written c where loop: "copyLoop sz 0 ?c0 = (e, written, c)"
    by (metis prod.collapse)
  from copyWithProgress_loop [OF loop] assms have "e = Some x" by simp
  with loop copyLoop_error [of sz 0 ?c0 x written c] show ?thesis by simp
qed

text \<open>
  C3, as the code has it. End-of-stream ends the copy with success whatever the number
  of bytes written: from a source that reports no error before it is used up, into a
  destination that accepts every write, both copies return \<open>nil\<close> having written the
  first \<open>size\<close> bytes of the source, or all of them when the source holds fewer. An
  error comes back only from a failed write or from a read error other than \<open>io.EOF\<close>.
\<close>

theorem copy_eof_is_success:
  "(rdClean src \<and> wroom dst = None \<longrightarrow>
      fst (copyWithProgress dst src sz task ticks) = None
      \<and> wbuf (cDst (snd (copyWithProgress dst src sz task ticks)))
          = wbuf dst @ take (nat sz) (rdBytes src)
      \<and> fst (copyWithProgressUpload dst src sz task ticks) = None
      \<and> wbuf (cDst (snd (copyWithProgressUpload dst src sz task ticks)))
          = wbuf dst @ take (nat sz) (rdBytes src))
   \<and> (fst (copyWithProgress dst src sz task ticks) = Some x
        \<or> fst (copyWithProgressUpload dst src sz task ticks) = Some x \<longrightarrow>
      (x \<noteq> EOF \<and> Some x \<in> snd ` set src) \<or> (x = OSError ''write'' \<and> wroom dst \<noteq> None))"
  using copyWithProgress_clean [of src dst sz task ticks]
    copyWithProgress_error [of dst src sz task ticks x]
  by (auto simp: copyWithProgressUpload_eq)

text \<open>Four bytes then end-of-stream for a size of ten: success, four bytes written. Two
  bytes then a read error: that error is returned.\<close>

theorem copy_eof_is_success_witness:
  "rdClean [([1, 2, 3, 4], None)] \<and> wroom (newFile None) = None
   \<and> int (length (rdBytes [([1, 2, 3, 4], None)])) < 10
   \<and> fst (copyWithProgress (newFile None) [([1, 2, 3, 4], None)] 10
        (newDownloadTask ''t'' ''f'' []) []) = None
   \<and> wbuf (cDst (snd (copyWithProgress (newFile None) [([1, 2, 3, 4], None)] 10
        (newDownloadTask ''t'' ''f'' []) []))) = [1, 2, 3, 4]
   \<and> fst (copyWithProgress (newFile None) [([1, 2], Some (OSError ''reset''))] 10
        (newDownloadTask ''t'' ''f'' []) []) = Some (OSError ''reset'')"
  using copy_eof_is_success [of "[([1, 2, 3, 4], None)]" "newFile None" 10
      "newDownloadTask ''t'' ''f'' []" "[]" "OSError ''reset''"]
    copy_eof_is_success [of "[([1, 2], Some (OSError ''reset''))]" "newFile None" 10
      "newDownloadTask ''t'' ''f'' []" "[]" "OSError ''reset''"]
  by (simp add: copyWithProgress_def copyLoop.simps copyStep_def newFile_def Write_def
      newDownloadTask_def rdBytes_def rdClean_def)

text \<open>
  C3 as stated fails: a source that yields four bytes and then end-of-stream, for a size
  of ten, makes both copies return \<open>nil\<close>.
\<close>

theorem copy_short_source_counterexample:
  "int (length (rdBytes [([1, 2, 3, 4], None)])) < 10
   \<and> fst (copyWithProgress (newFile None) [([1, 2, 3, 4], None)] 10
        (newDownloadTask ''t'' ''f'' []) []) = None
   \<and> fst (copyWithProgressUpload (newFile None) [([1, 2, 3, 4], None)] 10
        (newDownloadTask ''t'' ''f'' []) []) = None
   \<and> wbuf (cDst (snd (copyWithProgress (newFile None) [([1, 2, 3, 4], None)] 10
        (newDownloadTask ''t'' ''f'' []) []))) = [1, 2, 3, 4]"
  by (simp add: copyWithProgress_def copyWithProgressUpload_def copyLoop.simps copyStep_def
      newFile_def Write_def newDownloadTask_def rdBytes_def)


section \<open>Reading in full and copying a fixed number of bytes\<close>

lemma Read_size':
  "Read k r = ((bs, None), r') \<Longrightarrow> 0 < k \<Longrightarrow> rdSize r' < rdSize r"
  using Read_size [of k r] by simp

lemma readAtLeast_bytes:
  "readAtLeast k buf r = (buf', e, r') \<Longrightarrow> length buf \<le> k \<Longrightarrow>
     \<exists>bs. buf' = buf @ bs \<and> rdBytes r = bs @ rdBytes r' \<and> length buf' \<le> k
          \<and> (e = None \<longrightarrow> length buf' = k)"
proof (induction "rdSize r" arbitrary: buf r rule: less_induct)
  case less
  show ?case
  proof (cases "length buf < k")
    case False
    with less.prems show ?thesis by (simp add: readAtLeast.simps)
  next
    case True
    obtain bs er r1 where rd: "Read (k - length buf) r = ((bs, er), r1)"
      by (metis prod.collapse)
    from Read_bytes [OF rd] have b: "rdBytes r = bs @ rdBytes r1" "length bs \<le> k - length buf"
      by auto
    show ?thesis
    proof (cases er)
      case (Some x)
      with less.prems(1) True rd have "buf' = buf @ bs" "e = Some x" "r' = r1"
        by (auto simp: readAtLeast.simps [of k buf r])
      with b True show ?thesis by auto
    next
      case None
      with less.prems(1) True rd have rec: "readAtLeast k (buf @ bs) r1 = (buf', e, r')"
        by (simp add: readAtLeast.simps [of k buf r])
      have sm: "rdSize r1 < rdSize r"
        using Read_size' [of "k - length buf" r bs r1] rd None True by simp
      have "length (buf @ bs) \<le> k" using b True by simp
      from less.hyps [OF sm rec this] obtain cs where
        c: "buf' = (buf @ bs) @ cs" "rdBytes r1 = cs @ rdBytes r'" "length buf' \<le> k"
           "e = None \<longrightarrow> length buf' = k"
        by blast
      with b show ?thesis by (intro exI [of _ "bs @ cs"]) simp
    qed
  qed
qed

lemma ReadFull_bytes:
  assumes "ReadFull k r = (e, buf, r')"
  shows "rdBytes r = buf @ rdBytes r' \<and> length buf \<le> k \<and> (e = None \<longrightarrow> length buf = k)"
proof -
  obtain b e0 r0 where ra: "readAtLeast k [] r = (b, e0, r0)"
    by (metis prod.collapse)
  from readAtLeast_bytes [OF ra] have
    f: "rdBytes r = b @ rdBytes r0" "length b \<le> k" "e0 = None \<longrightarrow> length b = k"
    by auto
  from assms ra have "buf = b" "r' = r0" "e = None \<longrightarrow> k \<le> length b \<or> e0 = None"
    by (auto simp: ReadFull_def split: if_splits)
  with f show ?thesis by auto
qed

lemma copyLimited_bytes:
  "copyLimited left written r w = (e, written', r', w') \<Longrightarrow>
     \<exists>consumed put. rdBytes r = consumed @ rdBytes r' \<and> wbuf w' = wbuf w @ put
        \<and> put = take (length put) consumed \<and> length consumed \<le> left
        \<and> written' = written + length put
        \<and> (e = None \<longrightarrow> put = consumed)"
proof (induction "rdSize r" arbitrary: left written r w rule: less_induct)
  case less
  show ?case
  proof (cases "left = 0")
    case True
    with less.prems show ?thesis by (simp add: copyLimited.simps)
  next
    case False
    obtain bs er r1 where rd: "Read (min 32768 left) r = ((bs, er), r1)"
      by (metis prod.collapse)
    from Read_bytes [OF rd] have b: "rdBytes r = bs @ rdBytes r1" "length bs \<le> left"
      by auto
    obtain ew w1 where wr: "Write bs w = (ew, w1)" by (metis prod.collapse)
    from Write_facts [OF wr] obtain put1 where
      p: "wbuf w1 = wbuf w @ put1" "put1 = take (length put1) bs" "ew = None \<longrightarrow> put1 = bs"
      by blast
    have sm: "er = None \<Longrightarrow> rdSize r1 < rdSize r"
      using Read_size' [of "min 32768 left" r bs r1] rd False by simp
    note unf = copyLimited.simps [of left written r w]
    show ?thesis
    proof (cases "bs = []")
      case True
      show ?thesis
      proof (cases er)
        case None
        with less.prems True rd False have rec: "copyLimited left written r1 w = (e, written', r', w')"
          by (simp add: unf)
        from less.hyps [OF sm [OF None] rec] b True show ?thesis by simp
      next
        case (Some x)
        with less.prems True rd False have "written' = written" "r' = r1" "w' = w"
          by (auto simp: unf)
        with b True show ?thesis by simp
      qed
    next
      case nonempty: False
      show ?thesis
      proof (cases ew)
        case (Some x)
        with less.prems nonempty rd wr False have
          "e = Some x" "written' = written + (length (wbuf w1) - length (wbuf w))" "r' = r1" "w' = w1"
          by (auto simp: unf)
        with b p show ?thesis
          by (intro exI [of _ bs] exI [of _ put1]) simp
      next
        case None
        with p have p1: "put1 = bs" by simp
        show ?thesis
        proof (cases er)
          case (Some x)
          with less.prems nonempty rd wr None False have
            "written' = written + length bs" "r' = r1" "w' = w1"
            by (auto simp: unf)
          with b p p1 show ?thesis
            by (intro exI [of _ bs] exI [of _ bs]) simp
        next
          case noerr: None
          with less.prems nonempty rd wr None False have
            rec: "copyLimited (left - length bs) (written + length bs) r1 w1 = (e, written', r', w')"
            by (simp add: unf)
          from less.hyps [OF sm [OF noerr] rec] obtain consumed put where
            c: "rdBytes r1 = consumed @ rdBytes r'" "wbuf w' = wbuf w1 @ put"
               "put = take (length put) consumed" "length consumed \<le> left - length bs"
               "written' = written + length bs + length put" "e = None \<longrightarrow> put = consumed"
            by blast
          have "bs @ put = take (length (bs @ put)) (bs @ consumed)" using c(3) by simp
          with b c p p1 show ?thesis
            by (intro exI [of _ "bs @ consumed"] exI [of _ "bs @ put"]) auto
        qed
      qed
    qed
  qed
qed

lemma CopyN_bytes:
  assumes "CopyN dst src n = (e, r', w')"
  shows "\<exists>consumed put. rdBytes src = consumed @ rdBytes r' \<and> wbuf w' = wbuf dst @ put
        \<and> put = take (length put) consumed \<and> length consumed \<le> n
        \<and> (e = None \<longrightarrow> put = consumed \<and> length consumed = n)"
proof -
  obtain e0 written r0 w0 where cl: "copyLimited n 0 src dst = (e0, written, r0, w0)"
    by (metis prod.collapse)
  from copyLimited_bytes [OF cl] obtain consumed put where
    c: "rdBytes src = consumed @ rdBytes r0" "wbuf w0 = wbuf dst @ put"
       "put = take (length put) consumed" "length consumed \<le> n" "written = length put"
    by auto
  from assms cl have r: "r' = r0" "w' = w0" "e = None \<longrightarrow> written = n"
    by (auto simp: CopyN_def split: if_splits)
  have "e = None \<longrightarrow> put = consumed \<and> length consumed = n"
  proof
    assume "e = None"
    with r c(5) have "length put = n" by simp
    moreover have "length put \<le> length consumed"
      by (subst c(3)) simp
    ultimately have "length consumed = n" using c(4) by simp
    with c(3) \<open>length put = n\<close> show "put = consumed \<and> length consumed = n" by simp
  qed
  with c r show ?thesis by blast
qed


lemma fileReader_clean: "rdClean (fileReader content) \<and> rdBytes (fileReader content) = content"
  by (simp add: fileReader_def rdClean_def rdBytes_def)

lemma copyLoop_room:
  "copyLoop sz written c = (e, written', c') \<Longrightarrow> wroom (cDst c) = None \<Longrightarrow>
   wroom (cDst c') = None"
proof (induction sz written c arbitrary: e written' c' rule: copyLoop.induct)
  case (1 sz written c)
  show ?case
  proof (cases "written < sz")
    case False
    with "1.prems" show ?thesis by (simp add: copyLoop.simps)
  next
    case True
    obtain fl w1 c1 where st: "copyStep sz written c = (fl, w1, c1)"
      by (metis prod.collapse)
    from copyStep_error [OF st] "1.prems"(2) have r1: "wroom (cDst c1) = None" by blast
    show ?thesis
    proof (cases fl)
      case Continue
      with "1.prems" True st have loop: "copyLoop sz w1 c1 = (e, written', c')"
        by (simp add: copyLoop.simps [of sz written c])
      from "1.IH" [OF True st [symmetric] refl refl Continue loop r1] show ?thesis .
    next
      case Break
      with "1.prems" True st r1 show ?thesis
        by (auto simp: copyLoop.simps [of sz written c])
    next
      case (Return y)
      with "1.prems" True st r1 show ?thesis
        by (auto simp: copyLoop.simps [of sz written c])
    qed
  qed
qed

lemma copyWithProgress_room:
  assumes "wroom dst = None"
  shows "wroom (cDst (snd (copyWithProgress dst src sz task ticks))) = None"
proof -
  let ?c0 = "\<lparr>cSrc = src, cDst = dst, cTask = task\<lparr>LastBytes := 0\<rparr>, cSent = [],
             cTicks = ticks\<rparr>"
  obtain e written c where loop: "copyLoop sz 0 ?c0 = (e, written, c)"
    by (metis prod.collapse)
  from copyLoop_room [OF loop] assms copyWithProgress_loop [OF loop] show ?thesis by simp
qed

lemma copyLimited_clean:
  "copyLimited left written r w = (e, written', r', w') \<Longrightarrow> rdClean r \<Longrightarrow>
   wroom w = None \<Longrightarrow>
     e = None \<and> wroom w' = None \<and> (written' = written + left \<or> r' = [])"
proof (induction "rdSize r" arbitrary: left written r w rule: less_induct)
  case less
  show ?case
  proof (cases "left = 0")
    case True
    with less.prems show ?thesis by (simp add: copyLimited.simps)
  next
    case False
    obtain bs er r1 where rd: "Read (min 32768 left) r = ((bs, er), r1)"
      by (metis prod.collapse)
    from Read_bytes [OF rd] have b: "length bs \<le> left" by auto
    from Read_clean [OF less.prems(2) rd] have
      k: "rdClean r1" "er = None \<or> (er = Some EOF \<and> r1 = [] \<and> bs = [])"
      by auto
    have wr: "Write bs w = (None, w\<lparr>wbuf := wbuf w @ bs\<rparr>)"
      using less.prems(3) by (rule Write_unbounded)
    have sm: "er = None \<Longrightarrow> rdSize r1 < rdSize r"
      using Read_size' [of "min 32768 left" r bs r1] rd False by simp
    note unf = copyLimited.simps [of left written r w]
    show ?thesis
    proof (cases er)
      case (Some x)
      with k have "x = EOF" "r1 = []" "bs = []" by auto
      with less.prems Some rd False show ?thesis by (auto simp: unf)
    next
      case None
      show ?thesis
      proof (cases "bs = []")
        case True
        with less.prems None rd False have rec: "copyLimited left written r1 w = (e, written', r', w')"
          by (simp add: unf)
        from less.hyps [OF sm [OF None] rec k(1) less.prems(3)] show ?thesis .
      next
        case nonempty: False
        with less.prems None rd wr False have
          rec: "copyLimited (left - length bs) (written + length bs) r1 (w\<lparr>wbuf := wbuf w @ bs\<rparr>)
                 = (e, written', r', w')"
          by (simp add: unf)
        have "wroom (w\<lparr>wbuf := wbuf w @ bs\<rparr>) = None" using less.prems(3) by simp
        from less.hyps [OF sm [OF None] rec k(1) this] b show ?thesis by auto
      qed
    qed
  qed
qed

lemma CopyN_clean:
  assumes "rdClean src" and "wroom dst = None" and "n \<le> length (rdBytes src)"
  shows "fst (CopyN dst src n) = None
       \<and> wbuf (snd (snd (CopyN dst src n))) = wbuf dst @ take n (rdBytes src)
       \<and> wroom (snd (snd (CopyN dst src n))) = None"
proof -
  obtain e0 written r0 w0 where cl: "copyLimited n 0 src dst = (e0, written, r0, w0)"
    by (metis prod.collapse)
  from copyLimited_clean [OF cl assms(1,2)] have
    k: "e0 = None" "wroom w0 = None" "written = n \<or> r0 = []"
    by auto
  from copyLimited_bytes [OF cl] k(1) obtain consumed where
    c: "rdBytes src = consumed @ rdBytes r0" "wbuf w0 = wbuf dst @ consumed"
       "length consumed \<le> n" "written = length consumed"
    by auto
  have len: "length consumed = n"
  proof (cases "written = n")
    case True
    with c(4) show ?thesis by simp
  next
    case False
    with k(3) have "rdBytes r0 = []" by (simp add: rdBytes_def)
    with c(1,3) assms(3) show ?thesis by simp
  qed
  then have t: "consumed = take n (rdBytes src)" using c(1) by simp
  from cl len c(4) have "CopyN dst src n = (None, r0, w0)" by (simp add: CopyN_def)
  with c(2) t k(2) show ?thesis by simp
qed

lemma length_writeAppleDoubleHeader:
  "writeAppleDoubleHeader (newFile None) n =
     (None, \<lparr>wbuf = [0x00, 0x05, 0x16, 0x07, 0x00, 0x02, 0x00, 0x00] @ makeBytes 16
                @ [0x00, 0x01, 0x00, 0x00, 0x00, 0x02, 0x00, 0x00, 0x00, 0x52] @ putUint32 n,
             wroom = None\<rparr>)"
  by (simp add: writeAppleDoubleHeader_def newFile_def Write_def copyAt_def makeBytes_def
      length_putUint32)

section \<open>The upload worker and the sidecar\<close>

lemma uint16_putUint16: "uint16 (putUint16 v) = v"
  unfolding putUint16_def uint16.simps
  apply (rule bit_word_eqI)
  apply (simp add: bit_simps)
  subgoal for n
    apply (cases "n < 8"; simp)
    apply (auto simp: less_diff_conv2)
    done
  done

lemma ffoHeader_layout:
  "ffoHeader k = makeBytes 4 @ putUint16 1 @ makeBytes 16 @ putUint16 k"
  by (simp add: ffoHeader_def copyAt_def makeBytes_def putUint16_def numeral_eq_Suc)

lemma ffoHeader_forkCount: "length (ffoHeader k) = 24 \<and> uint16 (take 2 (drop 22 (ffoHeader k))) = k"
proof -
  obtain a b where p: "putUint16 k = [a, b]" by (simp add: putUint16_def)
  have a: "take 2 (drop 22 (ffoHeader k)) = putUint16 k"
    unfolding ffoHeader_layout p by (simp add: makeBytes_def putUint16_def)
  have b: "length (ffoHeader k) = 24"
    unfolding ffoHeader_layout p by (simp add: makeBytes_def putUint16_def)
  show ?thesis using b by (simp only: a uint16_putUint16)
qed

lemma openSidecar_none:
  "sidecarFork env = None \<Longrightarrow> snd (snd (openSidecar env)) = False"
  by (auto simp: sidecarFork_def openSidecar_def Let_def split: fsEntry.splits option.splits if_splits)

lemma openSidecar_some:
  "sidecarFork env = Some res \<Longrightarrow>
     openSidecar env = (Some (fileReader res), int (length res), True)"
  by (auto simp: sidecarFork_def openSidecar_def Let_def split: fsEntry.splits option.splits if_splits)

lemma sendFlattenedFileObject_unbounded:
  assumes room: "wroom conn = None"
  shows "fst (sendFlattenedFileObject env conn task) = None
     \<and> wbuf (uOut (snd (sendFlattenedFileObject env conn task)))
        = wbuf conn @ ffoHeader (if sidecarFork env = None then 2 else 3) @ infoFork env
          @ forkHeader ''DATA'' (toUint32 (int (length (localContent env)))) @ localContent env
          @ (case sidecarFork env of
               None \<Rightarrow> []
             | Some res \<Rightarrow> forkHeader ''MACR'' (toUint32 (int (length res))) @ res)"
proof -
  let ?fc = "if sidecarFork env = None then 2 else 3 :: 16 word"
  let ?c3 = "conn\<lparr>wbuf := wbuf conn @ ffoHeader ?fc @ infoFork env
      @ forkHeader ''DATA'' (toUint32 (int (length (localContent env))))\<rparr>"
  obtain e c where cp: "copyWithProgressUpload ?c3 (fileReader (localContent env))
      (int (length (localContent env))) task (ulTicks env) = (e, c)"
    by (metis prod.collapse)
  have r3: "wroom ?c3 = None" using room by simp
  from copyWithProgress_clean [of "fileReader (localContent env)" ?c3
      "int (length (localContent env))" task "ulTicks env"]
    copyWithProgress_room [OF r3, of "fileReader (localContent env)"
      "int (length (localContent env))" task "ulTicks env"]
    fileReader_clean [of "localContent env"] r3 cp
  have c: "e = None" "wbuf (cDst c) = wbuf ?c3 @ localContent env" "wroom (cDst c) = None"
    by (simp_all add: copyWithProgressUpload_eq)
  show ?thesis
  proof (cases "sidecarFork env")
    case None
    obtain rf rs where os: "openSidecar env = (rf, rs, False)"
      using openSidecar_none [OF None] by (metis prod.collapse)
    show ?thesis
      using None os room cp c
      by (simp add: sendFlattenedFileObject_def Write_unbounded Let_def split: option.splits)
  next
    case (Some res)
    note os = openSidecar_some [OF Some]
    let ?c4 = "(cDst c)\<lparr>wbuf := wbuf (cDst c) @ forkHeader ''MACR'' (toUint32 (int (length res)))\<rparr>"
    have r4: "wroom ?c4 = None" using c(3) by simp
    obtain e5 rest c5 where cn: "CopyN ?c4 (fileReader res) (length res) = (e5, rest, c5)"
      by (metis prod.collapse)
    from CopyN_clean [of "fileReader res" ?c4 "length res"] fileReader_clean [of res] r4 cn
    have c5: "e5 = None" "wbuf c5 = wbuf ?c4 @ res" by simp_all
    show ?thesis
      using Some os room cp c cn c5
      by (simp add: sendFlattenedFileObject_def Write_unbounded Let_def)
  qed
qed

text \<open>
  C10, as the code has it. Into a connection that accepts every write,
  \<open>sendFlattenedFileObject\<close> sends the container header, the information fork, the
  data-fork header and the file, and after them the resource-fork header and bytes
  exactly when the sidecar is a file that can be opened and has more than 82 bytes; the
  fork count in bytes \<open>[22:24]\<close> of the container header is 3 in that case and 2 in every
  other. A sidecar of at most 82 bytes, or none, gives fork count 2 and no resource fork.
\<close>

theorem upload_fork_count:
  "(wroom conn = None \<longrightarrow>
      fst (sendFlattenedFileObject env conn task) = None
      \<and> wbuf (uOut (snd (sendFlattenedFileObject env conn task)))
          = wbuf conn @ ffoHeader (if sidecarFork env = None then 2 else 3) @ infoFork env
            @ forkHeader ''DATA'' (toUint32 (int (length (localContent env))))
            @ localContent env
            @ (case sidecarFork env of
                 None \<Rightarrow> []
               | Some res \<Rightarrow> forkHeader ''MACR'' (toUint32 (int (length res))) @ res))
   \<and> length (ffoHeader k) = 24 \<and> uint16 (take 2 (drop 22 (ffoHeader k))) = k
   \<and> (sidecarFork env \<noteq> None \<longleftrightarrow>
        (\<exists>content. sidecar env = RegularFile content \<and> sidecarOpenErr env = None
           \<and> 82 < length content))
   \<and> (\<forall>content. sidecar env = RegularFile content \<and> length content \<le> 82 \<longrightarrow>
        sidecarFork env = None)
   \<and> (sidecar env = Missing \<longrightarrow> sidecarFork env = None)"
  using sendFlattenedFileObject_unbounded [of conn env task] ffoHeader_forkCount [of k]
  by (auto simp: sidecarFork_def split: fsEntry.splits)


text \<open>A sidecar of 84 bytes sends fork count 3 and the two bytes after offset 82; a
  sidecar of 82 bytes sends fork count 2 and nothing after the data fork.\<close>

theorem upload_fork_count_witness:
  "wroom (newFile None) = None
   \<and> sidecarFork (plainUpload (RegularFile (replicate 82 0 @ [7, 9])) None) = Some [7, 9]
   \<and> wbuf (uOut (snd (sendFlattenedFileObject
         (plainUpload (RegularFile (replicate 82 0 @ [7, 9])) None) (newFile None)
         (newUploadTask ''t'' ''f'' [] 3 ''f''))))
       = ffoHeader 3 @ forkHeader ''INFO'' 0 @ forkHeader ''DATA'' 3 @ [1, 2, 3]
         @ forkHeader ''MACR'' 2 @ [7, 9]
   \<and> sidecarFork (plainUpload (RegularFile (replicate 82 0)) None) = None
   \<and> wbuf (uOut (snd (sendFlattenedFileObject
         (plainUpload (RegularFile (replicate 82 0)) None) (newFile None)
         (newUploadTask ''t'' ''f'' [] 3 ''f''))))
       = ffoHeader 2 @ forkHeader ''INFO'' 0 @ forkHeader ''DATA'' 3 @ [1, 2, 3]"
  using upload_fork_count [of "newFile None"
      "plainUpload (RegularFile (replicate 82 0 @ [7, 9])) None"
      "newUploadTask ''t'' ''f'' [] 3 ''f''" 3]
    upload_fork_count [of "newFile None"
      "plainUpload (RegularFile (replicate 82 0)) None"
      "newUploadTask ''t'' ''f'' [] 3 ''f''" 2]
  by (simp add: sidecarFork_def plainUpload_def newFile_def toUint32_def)

text \<open>
  C10 as stated fails for a sidecar that exists and has 100 bytes but cannot be opened:
  the fork count sent is 2.
\<close>

theorem upload_unreadable_sidecar_counterexample:
  "sidecar (plainUpload (RegularFile (replicate 100 0)) (Some (OSError ''permission denied'')))
     = RegularFile (replicate 100 0)
   \<and> 82 < length (replicate 100 (0::byte))
   \<and> uint16 (take 2 (drop 22 (wbuf (uOut (snd (sendFlattenedFileObject
         (plainUpload (RegularFile (replicate 100 0)) (Some (OSError ''permission denied'')))
         (newFile None) (newUploadTask ''t'' ''f'' [] 3 ''f''))))))) = 2"
proof -
  let ?env = "plainUpload (RegularFile (replicate 100 0)) (Some (OSError ''permission denied''))"
  have sf: "sidecarFork ?env = None"
    by (simp add: sidecarFork_def plainUpload_def)
  have "wroom (newFile None) = None" by (simp add: newFile_def)
  from sendFlattenedFileObject_unbounded [OF this, of ?env "newUploadTask ''t'' ''f'' [] 3 ''f''"]
  have "wbuf (uOut (snd (sendFlattenedFileObject ?env (newFile None)
          (newUploadTask ''t'' ''f'' [] 3 ''f''))))
      = ffoHeader 2 @ (infoFork ?env @ forkHeader ''DATA'' (toUint32 (int (length (localContent ?env))))
          @ localContent ?env)"
    by (simp add: sf newFile_def)
  then have e: "take 2 (drop 22 (wbuf (uOut (snd (sendFlattenedFileObject ?env (newFile None)
          (newUploadTask ''t'' ''f'' [] 3 ''f''))))))
      = take 2 (drop 22 (ffoHeader 2))"
    using ffoHeader_forkCount [of 2] by simp
  have f: "uint16 (take 2 (drop 22 (ffoHeader 2))) = 2"
    using ffoHeader_forkCount [of 2] by blast
  have g: "sidecar ?env = RegularFile (replicate 100 0)"
    by (simp add: plainUpload_def)
  have h: "82 < length (replicate 100 (0::byte))" by simp
  show ?thesis unfolding e using f g h by blast
qed

text \<open>
  C4 does not hold of the code. The header that \<open>writeAppleDoubleHeader\<close> writes is 38
  bytes long, not 82, while the upload skips 82 bytes of the sidecar and takes its size
  minus 82 as the length: of a sidecar written for an \<open>N\<close>-byte resource fork it recovers
  the payload without its first 44 bytes, of length \<open>N - 44\<close>, and no resource fork at all
  when \<open>N \<le> 44\<close>. For a resource fork of 46 bytes the download writes the 38-byte header
  and the 46 bytes, and the upload of that sidecar sends a resource fork of the last two.
\<close>

theorem sidecar_roundtrip_loses_prefix:
  "length (wbuf (snd (writeAppleDoubleHeader (newFile None) n))) = 38
   \<and> openSidecar (env\<lparr>sidecar := RegularFile
          (wbuf (snd (writeAppleDoubleHeader (newFile None) (of_nat (length payload)))) @ payload),
        sidecarOpenErr := None\<rparr>)
       = (Some (fileReader (drop 44 payload)), int (length payload) - 44, 44 < length payload)
   \<and> map_option (\<lambda>p. wbuf (snd p))
        (dResFile (dlResourceFork (plainDownload []) ''dl/f''
           \<lparr>dTask = newDownloadTask ''t'' ''f'' [],
            dIn = [(forkHeader ''MACR'' 46 @ replicate 44 0xAA @ [1, 2], None)],
            dOut = newFile None, dFile = None, dResFile = None, dSent = []\<rparr>))
       = Some (wbuf (snd (writeAppleDoubleHeader (newFile None) 46)) @ replicate 44 0xAA @ [1, 2])
   \<and> openSidecar (plainUpload (RegularFile
          (wbuf (snd (writeAppleDoubleHeader (newFile None) 46)) @ replicate 44 0xAA @ [1, 2]))
          None)
       = (Some [([1, 2], None)], 2, True)
   \<and> wbuf (uOut (snd (sendFlattenedFileObject
         (plainUpload (RegularFile
            (wbuf (snd (writeAppleDoubleHeader (newFile None) 46)) @ replicate 44 0xAA @ [1, 2]))
            None)
         (newFile None) (newUploadTask ''t'' ''f'' [] 3 ''f''))))
       = ffoHeader 3 @ forkHeader ''INFO'' 0 @ forkHeader ''DATA'' 3 @ [1, 2, 3]
         @ forkHeader ''MACR'' 2 @ [1, 2]"
proof -
  let ?side = "wbuf (snd (writeAppleDoubleHeader (newFile None) 46)) @ replicate 44 0xAA @ [1, 2]"
  have g: "length (wbuf (snd (writeAppleDoubleHeader (newFile None) n))) = 38
   \<and> openSidecar (env\<lparr>sidecar := RegularFile
          (wbuf (snd (writeAppleDoubleHeader (newFile None) (of_nat (length payload)))) @ payload),
        sidecarOpenErr := None\<rparr>)
       = (Some (fileReader (drop 44 payload)), int (length payload) - 44, 44 < length payload)
   \<and> openSidecar (plainUpload (RegularFile ?side) None) = (Some [([1, 2], None)], 2, True)"
    by (simp add: length_writeAppleDoubleHeader openSidecar_def makeBytes_def length_putUint32
      Let_def plainUpload_def fileReader_def)
  have dl: "map_option (\<lambda>p. wbuf (snd p))
        (dResFile (dlResourceFork (plainDownload []) ''dl/f''
           \<lparr>dTask = newDownloadTask ''t'' ''f'' [],
            dIn = [(forkHeader ''MACR'' 46 @ replicate 44 0xAA @ [1, 2], None)],
            dOut = newFile None, dFile = None, dResFile = None, dSent = []\<rparr>))
       = Some ?side"
    by code_simp
  have sf: "sidecarFork (plainUpload (RegularFile ?side) None) = Some [1, 2]"
    by (simp add: sidecarFork_def plainUpload_def length_writeAppleDoubleHeader makeBytes_def
        length_putUint32)
  have "wroom (newFile None) = None" by (simp add: newFile_def)
  from sendFlattenedFileObject_unbounded [OF this,
      of "plainUpload (RegularFile ?side) None" "newUploadTask ''t'' ''f'' [] 3 ''f''"]
  have ul: "wbuf (uOut (snd (sendFlattenedFileObject (plainUpload (RegularFile ?side) None)
         (newFile None) (newUploadTask ''t'' ''f'' [] 3 ''f''))))
       = ffoHeader 3 @ forkHeader ''INFO'' 0 @ forkHeader ''DATA'' 3 @ [1, 2, 3]
         @ forkHeader ''MACR'' 2 @ [1, 2]"
    unfolding sf by (simp add: plainUpload_def newFile_def toUint32_def)
  from g dl ul show ?thesis by blast
qed


section \<open>The download worker\<close>

lemma copyWithProgress_task:
  "cTask (snd (copyWithProgress dst src sz task ticks))
     = task\<lparr>LastBytes := 0,
            TransferredBytes := TransferredBytes (cTask (snd (copyWithProgress dst src sz task ticks)))\<rparr>"
proof -
  let ?c0 = "\<lparr>cSrc = src, cDst = dst, cTask = task\<lparr>LastBytes := 0\<rparr>, cSent = [],
             cTicks = ticks\<rparr>"
  obtain e written c where loop: "copyLoop sz 0 ?c0 = (e, written, c)"
    by (metis prod.collapse)
  from copyLoop_task [OF loop] have
    "cTask c = (cTask ?c0)\<lparr>TransferredBytes := TransferredBytes (cTask c)\<rparr>"
    by blast
  then have "cTask c = task\<lparr>LastBytes := 0, TransferredBytes := TransferredBytes (cTask c)\<rparr>"
    by simp
  with copyWithProgress_loop [OF loop] show ?thesis by simp
qed

lemma copyWithProgress_fields:
  "ID (cTask (snd (copyWithProgress dst src sz task ticks))) = ID task
   \<and> Status (cTask (snd (copyWithProgress dst src sz task ticks))) = Status task
   \<and> TotalBytes (cTask (snd (copyWithProgress dst src sz task ticks))) = TotalBytes task
   \<and> Error (cTask (snd (copyWithProgress dst src sz task ticks))) = Error task
   \<and> LocalPath (cTask (snd (copyWithProgress dst src sz task ticks))) = LocalPath task"
proof -
  let ?t = "cTask (snd (copyWithProgress dst src sz task ticks))"
  let ?u = "task\<lparr>LastBytes := 0, TransferredBytes := TransferredBytes ?t\<rparr>"
  have eq: "?t = ?u" by (rule copyWithProgress_task)
  have "ID ?t = ID ?u" "Status ?t = Status ?u" "TotalBytes ?t = TotalBytes ?u"
    "Error ?t = Error ?u" "LocalPath ?t = LocalPath ?u"
    using eq by (rule arg_cong)+
  then show ?thesis by simp
qed

lemma dlOpen_Inl:
  "dlOpen env task ref sz = Some (Inl s) \<Longrightarrow>
     Status (dTask s) = TaskFailed \<and> (\<exists>label e. Error (dTask s) = Some (Wrapped label e))
     \<and> ID (dTask s) = ID task \<and> TotalBytes (dTask s) = TotalBytes task"
  by (auto simp: dlOpen_def dlFail_def failTask_def Let_def
      split: option.splits prod.splits)

lemma dlOpen_Inr:
  "dlOpen env task ref sz = Some (Inr (lp, lfile, s)) \<Longrightarrow>
     dTask s = task\<lparr>LocalPath := lp\<rparr> \<and> dIn s = connIn env \<and> lfile = newFile (fileRoom env)
     \<and> dFile s = Some (lp, lfile) \<and> dSent s = []
     \<and> resolveDownloadPath (pathJoin env) (fsStat env) (downloadDir env) (FileName task) = Some lp"
  by (auto simp: dlOpen_def dlFail_def failTask_def Let_def
      split: option.splits prod.splits)

lemma dlOpen_total:
  "resolveDownloadPath (pathJoin env) (fsStat env) (downloadDir env) (FileName task) \<noteq> None
   \<Longrightarrow> dlOpen env task ref sz \<noteq> None"
  by (auto simp: dlOpen_def Let_def split: option.splits prod.splits)

lemma dlReadHeaders_Inl:
  "dlReadHeaders s = Inl s' \<Longrightarrow>
     Status (dTask s') = TaskFailed \<and> (\<exists>label e. Error (dTask s') = Some (Wrapped label e))
     \<and> ID (dTask s') = ID (dTask s) \<and> TotalBytes (dTask s') = TotalBytes (dTask s)"
  by (auto simp: dlReadHeaders_def dlFail_def failTask_def Let_def
      split: option.splits prod.splits)

lemma dlReadHeaders_Inr:
  assumes "dlReadHeaders s = Inr (fc, ds, s')"
  shows "dTask s' = dTask s \<and> dFile s' = dFile s \<and> dSent s' = dSent s
     \<and> (\<exists>ffo infoHdr info dataHdr.
           rdBytes (dIn s) = ffo @ infoHdr @ info @ dataHdr @ rdBytes (dIn s')
         \<and> length ffo = 24 \<and> length infoHdr = 16
         \<and> length info = unat (uint32 (take 4 (drop 12 infoHdr)))
         \<and> length dataHdr = 16
         \<and> fc = uint16 (take 2 (drop 22 ffo))
         \<and> ds = uint32 (take 4 (drop 12 dataHdr)))"
proof -
  obtain e1 ffo in1 where r1: "ReadFull 24 (dIn s) = (e1, ffo, in1)" by (metis prod.collapse)
  obtain e2 infoHdr in2 where r2: "ReadFull 16 in1 = (e2, infoHdr, in2)" by (metis prod.collapse)
  obtain e3 in3 d3 where r3:
    "CopyN Discard in2 (unat (uint32 (take 4 (drop 12 infoHdr)))) = (e3, in3, d3)"
    by (metis prod.collapse)
  obtain e4 dataHdr in4 where r4: "ReadFull 16 in3 = (e4, dataHdr, in4)" by (metis prod.collapse)
  from assms r1 r2 r3 r4 have
    ok: "e1 = None" "e2 = None" "e3 = None" "e4 = None"
    and res: "fc = uint16 (take 2 (drop 22 ffo))" "ds = uint32 (take 4 (drop 12 dataHdr))"
      "s' = s\<lparr>dIn := in4\<rparr>"
    by (auto simp: dlReadHeaders_def Let_def split: option.splits)
  from ReadFull_bytes [OF r1] ok have b1: "rdBytes (dIn s) = ffo @ rdBytes in1" "length ffo = 24"
    by auto
  from ReadFull_bytes [OF r2] ok have b2: "rdBytes in1 = infoHdr @ rdBytes in2" "length infoHdr = 16"
    by auto
  from CopyN_bytes [OF r3] ok obtain info where
    b3: "rdBytes in2 = info @ rdBytes in3" "length info = unat (uint32 (take 4 (drop 12 infoHdr)))"
    by auto
  from ReadFull_bytes [OF r4] ok have b4: "rdBytes in3 = dataHdr @ rdBytes in4" "length dataHdr = 16"
    by auto
  have bytes: "rdBytes (dIn s) = ffo @ infoHdr @ info @ dataHdr @ rdBytes (dIn s')"
    using b1 b2 b3 b4 res(3) by simp
  have t: "dTask s' = dTask s \<and> dFile s' = dFile s \<and> dSent s' = dSent s"
    using res(3) by simp
  have ex: "\<exists>ffo infoHdr info dataHdr.
           rdBytes (dIn s) = ffo @ infoHdr @ info @ dataHdr @ rdBytes (dIn s')
         \<and> length ffo = 24 \<and> length infoHdr = 16
         \<and> length info = unat (uint32 (take 4 (drop 12 infoHdr)))
         \<and> length dataHdr = 16
         \<and> fc = uint16 (take 2 (drop 22 ffo))
         \<and> ds = uint32 (take 4 (drop 12 dataHdr))"
    using bytes b1(2) b2(2) b3(2) b4(2) res(1,2) by blast
  from t ex show ?thesis by blast
qed

lemma dlCopyData_Inl:
  "dlCopyData env lp lfile ds s = Inl s' \<Longrightarrow>
     Status (dTask s') = TaskFailed \<and> (\<exists>label e. Error (dTask s') = Some (Wrapped label e))
     \<and> ID (dTask s') = ID (dTask s) \<and> TotalBytes (dTask s') = TotalBytes (dTask s)"
  using copyWithProgress_fields [of lfile "dIn s" "uint ds" "dTask s" "dlTicks env"]
  by (auto simp: dlCopyData_def dlFail_def failTask_def Let_def split: option.splits prod.splits)

lemma dlCopyData_Inr:
  assumes "dlCopyData env lp lfile ds s = Inr s'"
  shows "dTask s' = (dTask s)\<lparr>LastBytes := 0, TransferredBytes := TransferredBytes (dTask s')\<rparr>
     \<and> (\<exists>data lfile'.
           rdBytes (dIn s) = data @ rdBytes (dIn s')
         \<and> int (length data) \<le> uint ds
         \<and> dFile s' = Some (lp, lfile') \<and> wbuf lfile' = wbuf lfile @ data
         \<and> (TransferredBytes (dTask s) = 0 \<longrightarrow> TransferredBytes (dTask s') = int (length data)))"
proof -
  let ?cp = "copyWithProgress lfile (dIn s) (uint ds) (dTask s) (dlTicks env)"
  from assms have ok: "fst ?cp = None"
    and res: "dIn s' = cSrc (snd ?cp)" "dFile s' = Some (lp, cDst (snd ?cp))"
      "dTask s' = cTask (snd ?cp)"
    by (auto simp: dlCopyData_def Let_def split: option.splits prod.splits)
  from copyWithProgress_bytes [of "dIn s" lfile "uint ds" "dTask s" "dlTicks env"] ok
  obtain consumed where
    c: "rdBytes (dIn s) = consumed @ rdBytes (cSrc (snd ?cp))"
       "wbuf (cDst (snd ?cp)) = wbuf lfile @ consumed"
       "int (length consumed) \<le> max 0 (uint ds)"
       "TransferredBytes (dTask s) = 0 \<longrightarrow>
          TransferredBytes (cTask (snd ?cp)) = int (length consumed)"
    by auto
  have t: "dTask s' = (dTask s)\<lparr>LastBytes := 0, TransferredBytes := TransferredBytes (dTask s')\<rparr>"
    using copyWithProgress_task [of lfile "dIn s" "uint ds" "dTask s" "dlTicks env"] res(3)
    by simp
  have "int (length consumed) \<le> uint ds" using c(3) by simp
  with c res t show ?thesis by auto
qed

lemma dlResourceFork_task:
  "dTask (dlResourceFork env lp s) = dTask s \<and> dFile (dlResourceFork env lp s) = dFile s
   \<and> dSent (dlResourceFork env lp s) = dSent s"
  by (auto simp: dlResourceFork_def Let_def split: option.splits prod.splits)

lemma dlDeferred_task:
  "dTask (dlDeferred s) =
     (if Status (dTask s) = TaskActive then (dTask s)\<lparr>Status := TaskCompleted\<rparr> else dTask s)
   \<and> dFile (dlDeferred s) = dFile s
   \<and> dSent (dlDeferred s)
       = dSent s @ [TaskStatusMsg (ID (dTask s))
            (if Status (dTask s) = TaskActive then TaskCompleted else Status (dTask s))
            (Error (dTask s))]"
  by (simp add: dlDeferred_def deferredStatus_def Let_def)

lemma dlDataFork_Inl:
  assumes "dlDataFork env task ref sz = Some (Inl s)"
  shows "Status (dTask s) = TaskFailed \<and> (\<exists>label e. Error (dTask s) = Some (Wrapped label e))
     \<and> ID (dTask s) = ID task \<and> TotalBytes (dTask s) = TotalBytes task"
proof (cases "dlOpen env task ref sz")
  case None
  with assms show ?thesis by (simp add: dlDataFork_def)
next
  case (Some r)
  show ?thesis
  proof (cases r)
    case (Inl s0)
    with Some assms have "s = s0" by (simp add: dlDataFork_def)
    with dlOpen_Inl [of env task ref sz s0] Some Inl show ?thesis by simp
  next
    case (Inr x)
    obtain lp lfile s1 where x: "x = (lp, lfile, s1)" by (cases x) auto
    note o = dlOpen_Inr [of env task ref sz lp lfile s1]
    from Some Inr x have op: "dlOpen env task ref sz = Some (Inr (lp, lfile, s1))" by simp
    from o [OF op] have t1: "ID (dTask s1) = ID task" "TotalBytes (dTask s1) = TotalBytes task"
      by simp_all
    show ?thesis
    proof (cases "dlReadHeaders s1")
      case (Inl s2)
      with op assms have "s = s2" by (simp add: dlDataFork_def)
      with dlReadHeaders_Inl [OF Inl] t1 show ?thesis by simp
    next
      case (Inr y)
      obtain fc ds s2 where y: "y = (fc, ds, s2)" by (cases y) auto
      from dlReadHeaders_Inr [of s1 fc ds s2] Inr y have t2: "dTask s2 = dTask s1" by simp
      from op Inr y assms have cd: "dlCopyData env lp lfile ds s2 = Inl s"
        by (simp add: dlDataFork_def split: sum.splits)
      from dlCopyData_Inl [OF cd] t1 t2 show ?thesis by simp
    qed
  qed
qed

lemma dlDataFork_Inr:
  assumes "dlDataFork env task ref sz = Some (Inr (fc, ds, lp, s))"
  shows "Status (dTask s) = Status task \<and> Error (dTask s) = Error task
     \<and> ID (dTask s) = ID task \<and> TotalBytes (dTask s) = TotalBytes task
     \<and> LocalPath (dTask s) = lp
     \<and> (\<exists>ffo infoHdr info dataHdr data lfile.
           rdBytes (connIn env) = ffo @ infoHdr @ info @ dataHdr @ data @ rdBytes (dIn s)
         \<and> length ffo = 24 \<and> length infoHdr = 16
         \<and> length info = unat (uint32 (take 4 (drop 12 infoHdr)))
         \<and> length dataHdr = 16
         \<and> fc = uint16 (take 2 (drop 22 ffo))
         \<and> ds = uint32 (take 4 (drop 12 dataHdr))
         \<and> int (length data) \<le> uint ds
         \<and> dFile s = Some (lp, lfile) \<and> wbuf lfile = data
         \<and> (TransferredBytes task = 0 \<longrightarrow> TransferredBytes (dTask s) = int (length data)))"
proof -
  from assms obtain lfile s1 where op: "dlOpen env task ref sz = Some (Inr (lp, lfile, s1))"
    by (auto simp: dlDataFork_def split: option.splits sum.splits)
  from assms op obtain s2 where rh: "dlReadHeaders s1 = Inr (fc, ds, s2)"
    by (auto simp: dlDataFork_def split: option.splits sum.splits)
  from assms op rh have cd: "dlCopyData env lp lfile ds s2 = Inr s"
    by (auto simp: dlDataFork_def split: option.splits sum.splits)
  from dlOpen_Inr [OF op] have
    o: "dTask s1 = task\<lparr>LocalPath := lp\<rparr>" "dIn s1 = connIn env" "lfile = newFile (fileRoom env)"
    by simp_all
  from dlReadHeaders_Inr [OF rh] obtain ffo infoHdr info dataHdr where
    h: "dTask s2 = dTask s1"
       "rdBytes (dIn s1) = ffo @ infoHdr @ info @ dataHdr @ rdBytes (dIn s2)"
       "length ffo = 24" "length infoHdr = 16"
       "length info = unat (uint32 (take 4 (drop 12 infoHdr)))"
       "length dataHdr = 16"
       "fc = uint16 (take 2 (drop 22 ffo))"
       "ds = uint32 (take 4 (drop 12 dataHdr))"
    by blast
  from dlCopyData_Inr [OF cd] obtain data lfile' where
    c: "dTask s = (dTask s2)\<lparr>LastBytes := 0, TransferredBytes := TransferredBytes (dTask s)\<rparr>"
       "rdBytes (dIn s2) = data @ rdBytes (dIn s)"
       "int (length data) \<le> uint ds"
       "dFile s = Some (lp, lfile')" "wbuf lfile' = wbuf lfile @ data"
       "TransferredBytes (dTask s2) = 0 \<longrightarrow> TransferredBytes (dTask s) = int (length data)"
    by blast
  let ?u = "(dTask s2)\<lparr>LastBytes := 0, TransferredBytes := TransferredBytes (dTask s)\<rparr>"
  have f: "Status (dTask s) = Status ?u" "Error (dTask s) = Error ?u" "ID (dTask s) = ID ?u"
    "TotalBytes (dTask s) = TotalBytes ?u" "LocalPath (dTask s) = LocalPath ?u"
    using c(1) by (rule arg_cong)+
  have fields: "Status (dTask s) = Status task \<and> Error (dTask s) = Error task
     \<and> ID (dTask s) = ID task \<and> TotalBytes (dTask s) = TotalBytes task
     \<and> LocalPath (dTask s) = lp"
    using f h(1) o(1) by simp
  have bytes: "rdBytes (connIn env) = ffo @ infoHdr @ info @ dataHdr @ data @ rdBytes (dIn s)"
    using h(2) c(2) o(2) by simp
  have w: "wbuf lfile' = data" using c(5) o(3) by (simp add: newFile_def)
  have tb: "TransferredBytes task = 0 \<longrightarrow> TransferredBytes (dTask s) = int (length data)"
    using c(6) h(1) o(1) by simp
  have ex: "\<exists>ffo infoHdr info dataHdr data lfile.
           rdBytes (connIn env) = ffo @ infoHdr @ info @ dataHdr @ data @ rdBytes (dIn s)
         \<and> length ffo = 24 \<and> length infoHdr = 16
         \<and> length info = unat (uint32 (take 4 (drop 12 infoHdr)))
         \<and> length dataHdr = 16
         \<and> fc = uint16 (take 2 (drop 22 ffo))
         \<and> ds = uint32 (take 4 (drop 12 dataHdr))
         \<and> int (length data) \<le> uint ds
         \<and> dFile s = Some (lp, lfile) \<and> wbuf lfile = data
         \<and> (TransferredBytes task = 0 \<longrightarrow> TransferredBytes (dTask s) = int (length data))"
    using bytes h(3-8) c(3,4) w tb by blast
  from fields ex show ?thesis by blast
qed

lemma dlDataFork_total:
  "resolveDownloadPath (pathJoin env) (fsStat env) (downloadDir env) (FileName task) \<noteq> None
   \<Longrightarrow> dlDataFork env task ref sz \<noteq> None"
  using dlOpen_total [of env task ref sz]
  by (auto simp: dlDataFork_def split: option.splits sum.splits prod.splits)

lemma performFileTransfer_Inl:
  assumes "dlDataFork env task ref sz = Some (Inl s)"
  shows "\<exists>out label e. performFileTransfer env task ref sz = Some out
     \<and> Status (dTask out) = TaskFailed \<and> Error (dTask out) = Some (Wrapped label e)
     \<and> last (dSent out) = TaskStatusMsg (ID task) TaskFailed (Some (Wrapped label e))"
proof -
  from dlDataFork_Inl [OF assms] obtain label e where
    f: "Status (dTask s) = TaskFailed" "Error (dTask s) = Some (Wrapped label e)"
       "ID (dTask s) = ID task"
    by blast
  have p: "performFileTransfer env task ref sz = Some (dlDeferred s)"
    using assms by (simp add: performFileTransfer_def)
  from dlDeferred_task [of s] f have
    "Status (dTask (dlDeferred s)) = TaskFailed"
    "Error (dTask (dlDeferred s)) = Some (Wrapped label e)"
    "last (dSent (dlDeferred s)) = TaskStatusMsg (ID task) TaskFailed (Some (Wrapped label e))"
    by simp_all
  with p show ?thesis by blast
qed

lemma performFileTransfer_Inr:
  assumes "dlDataFork env task ref sz = Some (Inr (fc, ds, lp, s))"
    and "Status task = TaskActive"
  shows "\<exists>out. performFileTransfer env task ref sz = Some out
     \<and> dFile out = dFile s
     \<and> dTask out = (dTask s)\<lparr>Status := TaskCompleted\<rparr>
     \<and> last (dSent out) = TaskStatusMsg (ID task) TaskCompleted (Error task)"
proof -
  let ?s = "if fc = 3 then dlResourceFork env lp s else s"
  from dlDataFork_Inr [OF assms(1)] assms(2) have
    f: "Status (dTask s) = TaskActive" "Error (dTask s) = Error task" "ID (dTask s) = ID task"
    by simp_all
  have same: "dTask ?s = dTask s" "dFile ?s = dFile s"
    using dlResourceFork_task [of env lp s] by simp_all
  have p: "performFileTransfer env task ref sz = Some (dlDeferred ?s)"
    using assms(1) by (simp add: performFileTransfer_def)
  from dlDeferred_task [of ?s] f same have
    "dTask (dlDeferred ?s) = (dTask s)\<lparr>Status := TaskCompleted\<rparr>"
    "dFile (dlDeferred ?s) = dFile s"
    "last (dSent (dlDeferred ?s)) = TaskStatusMsg (ID task) TaskCompleted (Error task)"
    by simp_all
  with p show ?thesis by blast
qed

lemma handleDownloadReplyMsg_initiated:
  "snd (handleDownloadReplyMsg txID ref transferSize fileSize
          (InitiateDownload taskID fileName filePath txID m))
     = Some ((newDownloadTask taskID fileName filePath)
               \<lparr>TotalBytes := uint transferSize, Status := TaskActive\<rparr>, ref, transferSize)"
  by (simp add: handleDownloadReplyMsg_def InitiateDownload_def Get_def Add_def
      newDownloadTask_def Let_def)

subsection \<open>End of stream in the copy loop, and where a reader reports it\<close>

lemma butlast_errs_tl:
  "snd ` set (butlast rest) \<subseteq> snd ` set (butlast (a # rest))"
  by (cases rest) auto

lemma Read_mid:
  "Read k r = (x, r') \<Longrightarrow> snd ` set (butlast r') \<subseteq> snd ` set (butlast r)"
proof (cases r)
  case Nil
  assume "Read k r = (x, r')"
  with Nil show ?thesis by auto
next
  case (Cons a rest)
  assume rd: "Read k r = (x, r')"
  obtain bs e where a: "a = (bs, e)" by (cases a)
  show ?thesis
  proof (cases "length bs \<le> k")
    case True
    with rd Cons a have "r' = rest" by simp
    with Cons butlast_errs_tl [of rest a] show ?thesis by simp
  next
    case False
    with rd Cons a have "r' = (drop k bs, e) # rest" by simp
    with Cons a show ?thesis by (cases rest) auto
  qed
qed

lemma Read_eof:
  "Read k r = ((bs, Some EOF), r') \<Longrightarrow> r' = [] \<or> Some EOF \<in> snd ` set (butlast r)"
proof (cases r)
  case Nil
  assume "Read k r = ((bs, Some EOF), r')"
  with Nil show ?thesis by auto
next
  case (Cons a rest)
  assume rd: "Read k r = ((bs, Some EOF), r')"
  obtain bs0 e where a: "a = (bs0, e)" by (cases a)
  show ?thesis
  proof (cases "length bs0 \<le> k")
    case True
    with rd Cons a have x: "r' = rest" "e = Some EOF" by simp_all
    show ?thesis
    proof (cases "rest = []")
      case True with x show ?thesis by simp
    next
      case False
      with Cons a x have "Some EOF \<in> snd ` set (butlast r)" by force
      then show ?thesis ..
    qed
  next
    case False
    with rd Cons a show ?thesis by simp
  qed
qed

lemma copyStep_mid:
  assumes "copyStep sz written c = (fl, written', c')"
  shows "snd ` set (butlast (cSrc c')) \<subseteq> snd ` set (butlast (cSrc c))"
proof -
  let ?k = "nat (if sz - written < 32 * 1024 then sz - written else 32 * 1024)"
  obtain buf rerr src' where rd: "Read ?k (cSrc c) = ((buf, rerr), src')"
    by (metis prod.collapse)
  obtain ew dst' where wr: "Write buf (cDst c) = (ew, dst')" by (metis prod.collapse)
  have A: "cSrc c' = src'"
    using assms rd wr by (auto simp: copyStep_def Let_def split: option.splits if_splits)
  from Read_mid [OF rd] A show ?thesis by simp
qed

lemma copyStep_break:
  assumes "copyStep sz written c = (Break, written', c')"
  shows "cSrc c' = [] \<or> Some EOF \<in> snd ` set (butlast (cSrc c))"
proof -
  let ?k = "nat (if sz - written < 32 * 1024 then sz - written else 32 * 1024)"
  obtain buf rerr src' where rd: "Read ?k (cSrc c) = ((buf, rerr), src')"
    by (metis prod.collapse)
  obtain ew dst' where wr: "Write buf (cDst c) = (ew, dst')" by (metis prod.collapse)
  have A: "cSrc c' = src'"
    using assms rd wr by (auto simp: copyStep_def Let_def split: option.splits if_splits)
  have B: "rerr = Some EOF"
    using assms rd wr by (auto simp: copyStep_def Let_def split: option.splits if_splits)
  from rd B have "Read ?k (cSrc c) = ((buf, Some EOF), src')" by simp
  from Read_eof [OF this] A show ?thesis by simp
qed

lemma copyLoop_short:
  "copyLoop sz written c = (None, written', c') \<Longrightarrow>
     sz \<le> written' \<or> cSrc c' = [] \<or> Some EOF \<in> snd ` set (butlast (cSrc c))"
proof (induction sz written c arbitrary: written' c' rule: copyLoop.induct)
  case (1 sz written c)
  show ?case
  proof (cases "written < sz")
    case False
    with "1.prems" show ?thesis by (simp add: copyLoop.simps)
  next
    case True
    obtain fl w1 c1 where st: "copyStep sz written c = (fl, w1, c1)"
      by (metis prod.collapse)
    from copyStep_mid [OF st] have
      sub: "snd ` set (butlast (cSrc c1)) \<subseteq> snd ` set (butlast (cSrc c))" .
    show ?thesis
    proof (cases fl)
      case Continue
      with "1.prems" True st have loop: "copyLoop sz w1 c1 = (None, written', c')"
        by (simp add: copyLoop.simps [of sz written c])
      from "1.IH" [OF True st [symmetric] refl refl Continue loop] sub show ?thesis by auto
    next
      case Break
      with "1.prems" True st have "c' = c1"
        by (auto simp: copyLoop.simps [of sz written c])
      with copyStep_break [of sz written c w1 c1] st Break show ?thesis by simp
    next
      case (Return y)
      with "1.prems" True st show ?thesis
        by (auto simp: copyLoop.simps [of sz written c])
    qed
  qed
qed

lemma copyWithProgress_exact:
  assumes ok: "fst (copyWithProgress dst src sz task ticks) = None"
  shows "\<exists>data.
        rdBytes src = data @ rdBytes (cSrc (snd (copyWithProgress dst src sz task ticks)))
      \<and> wbuf (cDst (snd (copyWithProgress dst src sz task ticks))) = wbuf dst @ data
      \<and> int (length data) \<le> max 0 sz
      \<and> (TransferredBytes task = 0 \<longrightarrow>
            TransferredBytes (cTask (snd (copyWithProgress dst src sz task ticks)))
              = int (length data))
      \<and> (sz \<le> int (length data)
           \<or> cSrc (snd (copyWithProgress dst src sz task ticks)) = []
           \<or> Some EOF \<in> snd ` set (butlast src))"
proof -
  let ?c0 = "\<lparr>cSrc = src, cDst = dst, cTask = task\<lparr>LastBytes := 0\<rparr>, cSent = [],
             cTicks = ticks\<rparr>"
  obtain e written c where loop: "copyLoop sz 0 ?c0 = (e, written, c)"
    by (metis prod.collapse)
  note w = copyWithProgress_loop [OF loop]
  from w ok have e: "e = None" by simp
  from copyLoop_bytes [OF loop] e obtain data where b:
    "rdBytes src = data @ rdBytes (cSrc c)"
    "wbuf (cDst c) = wbuf dst @ data"
    "int (length data) \<le> max 0 sz"
    "written = int (length data)"
    by auto
  from copyLoop_task [OF loop] have
    t: "TransferredBytes (cTask c) = (if written = 0 then TransferredBytes task else written)"
    by simp
  have tb: "TransferredBytes task = 0 \<longrightarrow> TransferredBytes (cTask c) = int (length data)"
    using t b(4) by auto
  from copyLoop_short [of sz 0 ?c0 written c] loop e
  have sh: "sz \<le> int (length data) \<or> cSrc c = [] \<or> Some EOF \<in> snd ` set (butlast src)"
    using b(4) by simp
  from b(1-3) tb sh w show ?thesis
    by (intro exI [of _ data]) simp
qed

lemma readAtLeast_errs:
  "readAtLeast k buf r = (buf', e, r') \<Longrightarrow> snd ` set (butlast r') \<subseteq> snd ` set (butlast r)"
proof (induction "rdSize r" arbitrary: buf r rule: less_induct)
  case less
  show ?case
  proof (cases "length buf < k")
    case False
    with less.prems show ?thesis by (simp add: readAtLeast.simps)
  next
    case True
    obtain bs er r1 where rd: "Read (k - length buf) r = ((bs, er), r1)"
      by (metis prod.collapse)
    from Read_mid [OF rd] have sub: "snd ` set (butlast r1) \<subseteq> snd ` set (butlast r)" .
    show ?thesis
    proof (cases er)
      case (Some x)
      with less.prems True rd have "r' = r1"
        by (auto simp: readAtLeast.simps [of k buf r])
      with sub show ?thesis by simp
    next
      case None
      with less.prems True rd have rec: "readAtLeast k (buf @ bs) r1 = (buf', e, r')"
        by (simp add: readAtLeast.simps [of k buf r])
      have sm: "rdSize r1 < rdSize r"
        using Read_size' [of "k - length buf" r bs r1] rd None True by simp
      from less.hyps [OF sm rec] sub show ?thesis by blast
    qed
  qed
qed

lemma ReadFull_errs:
  "ReadFull k r = (e, buf, r') \<Longrightarrow> snd ` set (butlast r') \<subseteq> snd ` set (butlast r)"
proof -
  assume a: "ReadFull k r = (e, buf, r')"
  obtain b e0 r0 where ra: "readAtLeast k [] r = (b, e0, r0)" by (metis prod.collapse)
  from a ra have "r' = r0" by (auto simp: ReadFull_def split: if_splits)
  with readAtLeast_errs [OF ra] show ?thesis by simp
qed

lemma copyLimited_errs:
  "copyLimited left written r w = (e, written', r', w') \<Longrightarrow> snd ` set (butlast r') \<subseteq> snd ` set (butlast r)"
proof (induction "rdSize r" arbitrary: left written r w rule: less_induct)
  case less
  show ?case
  proof (cases "left = 0")
    case True
    with less.prems show ?thesis by (simp add: copyLimited.simps)
  next
    case False
    obtain bs er r1 where rd: "Read (min 32768 left) r = ((bs, er), r1)"
      by (metis prod.collapse)
    from Read_mid [OF rd] have sub: "snd ` set (butlast r1) \<subseteq> snd ` set (butlast r)" .
    obtain ew w1 where wr: "Write bs w = (ew, w1)" by (metis prod.collapse)
    have sm: "er = None \<Longrightarrow> rdSize r1 < rdSize r"
      using Read_size' [of "min 32768 left" r bs r1] rd False by simp
    note unf = copyLimited.simps [of left written r w]
    have "r' = r1 \<or> (er = None \<and> (\<exists>l x v. copyLimited l x r1 v = (e, written', r', w')))"
      using less.prems rd wr False
      by (cases "bs = []"; cases er; cases ew) (auto simp: unf)
    then show ?thesis
    proof
      assume "r' = r1" with sub show ?thesis by simp
    next
      assume "er = None \<and> (\<exists>l x v. copyLimited l x r1 v = (e, written', r', w'))"
      then obtain l x v where n: "er = None" and rec: "copyLimited l x r1 v = (e, written', r', w')"
        by blast
      from less.hyps [OF sm [OF n] rec] sub show ?thesis by blast
    qed
  qed
qed

lemma CopyN_errs:
  "CopyN dst src n = (e, r', w') \<Longrightarrow> snd ` set (butlast r') \<subseteq> snd ` set (butlast src)"
proof -
  assume a: "CopyN dst src n = (e, r', w')"
  obtain e0 written r0 w0 where cl: "copyLimited n 0 src dst = (e0, written, r0, w0)"
    by (metis prod.collapse)
  from a cl have "r' = r0" by (auto simp: CopyN_def split: if_splits)
  with copyLimited_errs [OF cl] show ?thesis by simp
qed

subsection \<open>The sizes of a completed download\<close>

lemma dlReadHeaders_errs:
  assumes "dlReadHeaders s = Inr (fc, ds, s')"
  shows "snd ` set (butlast (dIn s')) \<subseteq> snd ` set (butlast (dIn s))"
proof -
  obtain e1 ffo in1 where r1: "ReadFull 24 (dIn s) = (e1, ffo, in1)" by (metis prod.collapse)
  obtain e2 infoHdr in2 where r2: "ReadFull 16 in1 = (e2, infoHdr, in2)" by (metis prod.collapse)
  obtain e3 in3 d3 where r3:
    "CopyN Discard in2 (unat (uint32 (take 4 (drop 12 infoHdr)))) = (e3, in3, d3)"
    by (metis prod.collapse)
  obtain e4 dataHdr in4 where r4: "ReadFull 16 in3 = (e4, dataHdr, in4)" by (metis prod.collapse)
  from assms r1 r2 r3 r4 have "s' = s\<lparr>dIn := in4\<rparr>"
    by (auto simp: dlReadHeaders_def Let_def split: option.splits)
  with ReadFull_errs [OF r1] ReadFull_errs [OF r2] CopyN_errs [OF r3] ReadFull_errs [OF r4]
  show ?thesis by auto
qed

lemma dlCopyData_exact:
  assumes "dlCopyData env lp lfile ds s = Inr s'"
  shows "\<exists>data lfile'.
           rdBytes (dIn s) = data @ rdBytes (dIn s')
         \<and> dFile s' = Some (lp, lfile') \<and> wbuf lfile' = wbuf lfile @ data
         \<and> (int (length data) = uint ds \<or> dIn s' = [] \<or> Some EOF \<in> snd ` set (butlast (dIn s)))"
proof -
  let ?cp = "copyWithProgress lfile (dIn s) (uint ds) (dTask s) (dlTicks env)"
  from assms have ok: "fst ?cp = None"
    and res: "dIn s' = cSrc (snd ?cp)" "dFile s' = Some (lp, cDst (snd ?cp))"
    by (auto simp: dlCopyData_def Let_def split: option.splits prod.splits)
  from copyWithProgress_exact [OF ok] obtain data where
    c: "rdBytes (dIn s) = data @ rdBytes (cSrc (snd ?cp))"
       "wbuf (cDst (snd ?cp)) = wbuf lfile @ data"
       "int (length data) \<le> max 0 (uint ds)"
       "uint ds \<le> int (length data) \<or> cSrc (snd ?cp) = [] \<or> Some EOF \<in> snd ` set (butlast (dIn s))"
    by blast
  have "int (length data) = uint ds \<or> dIn s' = [] \<or> Some EOF \<in> snd ` set (butlast (dIn s))"
    using c(3,4) res(1) by auto
  with c(1,2) res show ?thesis by auto
qed

lemma dlDataFork_exact:
  assumes df: "dlDataFork env task ref sz = Some (Inr (fc, ds, lp, s))"
  shows "\<exists>ffo infoHdr info dataHdr data lfile.
           rdBytes (connIn env) = ffo @ infoHdr @ info @ dataHdr @ data @ rdBytes (dIn s)
         \<and> length ffo = 24 \<and> length infoHdr = 16
         \<and> length info = unat (uint32 (take 4 (drop 12 infoHdr)))
         \<and> length dataHdr = 16
         \<and> fc = uint16 (take 2 (drop 22 ffo))
         \<and> ds = uint32 (take 4 (drop 12 dataHdr))
         \<and> int (length data) \<le> uint ds
         \<and> dFile s = Some (lp, lfile) \<and> wbuf lfile = data
         \<and> (TransferredBytes task = 0 \<longrightarrow> TransferredBytes (dTask s) = int (length data))
         \<and> (int (length data) = uint ds \<or> rdBytes (dIn s) = []
              \<or> Some EOF \<in> snd ` set (butlast (connIn env)))"
proof -
  from df obtain lfile0 s1 where op: "dlOpen env task ref sz = Some (Inr (lp, lfile0, s1))"
    by (auto simp: dlDataFork_def split: option.splits sum.splits)
  from df op obtain s2 where rh: "dlReadHeaders s1 = Inr (fc, ds, s2)"
    by (auto simp: dlDataFork_def split: option.splits sum.splits)
  from df op rh have cd: "dlCopyData env lp lfile0 ds s2 = Inr s"
    by (auto simp: dlDataFork_def split: option.splits sum.splits)
  from dlOpen_Inr [OF op] have o: "dIn s1 = connIn env" "lfile0 = newFile (fileRoom env)"
    by simp_all
  from dlReadHeaders_errs [OF rh] o(1) have sub: "snd ` set (butlast (dIn s2)) \<subseteq> snd ` set (butlast (connIn env))"
    by simp
  from dlCopyData_exact [OF cd] obtain data' lfile' where
    x: "dFile s = Some (lp, lfile')" "wbuf lfile' = wbuf lfile0 @ data'"
       "int (length data') = uint ds \<or> dIn s = [] \<or> Some EOF \<in> snd ` set (butlast (dIn s2))"
    by blast
  from dlDataFork_Inr [OF df] obtain ffo infoHdr info dataHdr data lfile where
    d: "rdBytes (connIn env) = ffo @ infoHdr @ info @ dataHdr @ data @ rdBytes (dIn s)"
       "length ffo = 24" "length infoHdr = 16"
       "length info = unat (uint32 (take 4 (drop 12 infoHdr)))"
       "length dataHdr = 16"
       "fc = uint16 (take 2 (drop 22 ffo))"
       "ds = uint32 (take 4 (drop 12 dataHdr))"
       "int (length data) \<le> uint ds"
       "dFile s = Some (lp, lfile)" "wbuf lfile = data"
       "TransferredBytes task = 0 \<longrightarrow> TransferredBytes (dTask s) = int (length data)"
    by blast
  have same: "data' = data" using x(1,2) d(9,10) o(2) by (simp add: newFile_def)
  have sh: "int (length data) = uint ds \<or> rdBytes (dIn s) = []
      \<or> Some EOF \<in> snd ` set (butlast (connIn env))"
    using x(3) same sub by (auto simp: rdBytes_def)
  from d sh show ?thesis by blast
qed

lemma len_le_unat: "int (length xs) \<le> uint (w :: 'a::len word) \<Longrightarrow> length xs \<le> unat w"
  by (metis nat_int nat_mono unat_eq_nat_uint)

lemma len_eq_unat: "int (length xs) = uint (w :: 'a::len word) \<Longrightarrow> length xs = unat w"
  by (metis nat_int unat_eq_nat_uint)

lemma take_declared:
  assumes le: "int (length data) \<le> uint (w :: 'a::len word)"
    and k: "int (length data) = uint w \<or> rest = []"
  shows "data = take (unat w) (data @ rest)"
    and "int (length data) = min (uint w) (int (length (data @ rest)))"
proof -
  show "data = take (unat w) (data @ rest)"
  proof (cases "rest = []")
    case True
    with len_le_unat [OF le] show ?thesis by simp
  next
    case False
    with k have "int (length data) = uint w" by simp
    then have "length data = unat w" by (rule len_eq_unat)
    then show ?thesis by simp
  qed
  show "int (length data) = min (uint w) (int (length (data @ rest)))"
  proof (cases "rest = []")
    case True
    with le show ?thesis by simp
  next
    case False
    with k have "int (length data) = uint w" by simp
    then show ?thesis by simp
  qed
qed

lemma performFileTransfer_completed:
  assumes p: "performFileTransfer env task ref sz = Some out"
    and c: "Status (dTask out) = TaskCompleted"
  shows "\<exists>fc ds lp s. dlDataFork env task ref sz = Some (Inr (fc, ds, lp, s))"
proof (cases "dlDataFork env task ref sz")
  case None
  with p show ?thesis by (simp add: performFileTransfer_def)
next
  case (Some r)
  show ?thesis
  proof (cases r)
    case (Inl s)
    with Some have "dlDataFork env task ref sz = Some (Inl s)" by simp
    from performFileTransfer_Inl [OF this] p c have False by auto
    then show ?thesis ..
  next
    case (Inr x)
    obtain fc ds lp s where "x = (fc, ds, lp, s)" by (cases x) auto
    with Some Inr show ?thesis by simp
  qed
qed

lemma download_sizes_body:
  assumes act: "Status task = TaskActive" and zero: "TransferredBytes task = 0"
    and p: "performFileTransfer env task ref sz = Some out"
    and c: "Status (dTask out) = TaskCompleted"
  shows "TotalBytes (dTask out) = TotalBytes task" and "(\<exists>ffo infoHdr info dataHdr data rest lp lfile.
                rdBytes (connIn env) = ffo @ infoHdr @ info @ dataHdr @ data @ rest
              \<and> length ffo = 24 \<and> length infoHdr = 16
              \<and> length info = unat (uint32 (take 4 (drop 12 infoHdr)))
              \<and> length dataHdr = 16
              \<and> TransferredBytes (dTask out) = int (length data)
              \<and> dFile out = Some (lp, lfile) \<and> wbuf lfile = data
              \<and> int (length data) \<le> uint (uint32 (take 4 (drop 12 dataHdr)))
              \<and> (int (length data) = uint (uint32 (take 4 (drop 12 dataHdr)))
                   \<or> rest = [] \<or> Some EOF \<in> snd ` set (butlast (connIn env)))
              \<and> (Some EOF \<notin> snd ` set (butlast (connIn env)) \<longrightarrow>
                    data = take (unat (uint32 (take 4 (drop 12 dataHdr)))) (data @ rest)
                    \<and> TransferredBytes (dTask out)
                        = min (uint (uint32 (take 4 (drop 12 dataHdr))))
                              (int (length (data @ rest)))))"
proof -
  from performFileTransfer_completed [OF p c] obtain fc ds lp s where
    df: "dlDataFork env task ref sz = Some (Inr (fc, ds, lp, s))" by blast
  from performFileTransfer_Inr [OF df act] p have
    o: "dFile out = dFile s" "dTask out = (dTask s)\<lparr>Status := TaskCompleted\<rparr>"
    by auto
  from dlDataFork_Inr [OF df] have tb0: "TotalBytes (dTask s) = TotalBytes task" by blast
  from o(2) tb0 show "TotalBytes (dTask out) = TotalBytes task" by simp
  from dlDataFork_exact [OF df] zero obtain ffo infoHdr info dataHdr data lfile where
    d: "rdBytes (connIn env) = ffo @ infoHdr @ info @ dataHdr @ data @ rdBytes (dIn s)"
       "length ffo = 24" "length infoHdr = 16"
       "length info = unat (uint32 (take 4 (drop 12 infoHdr)))"
       "length dataHdr = 16"
       "ds = uint32 (take 4 (drop 12 dataHdr))"
       "int (length data) \<le> uint ds"
       "dFile s = Some (lp, lfile)" "wbuf lfile = data"
       "TransferredBytes (dTask s) = int (length data)"
       "int (length data) = uint ds \<or> rdBytes (dIn s) = []
          \<or> Some EOF \<in> snd ` set (butlast (connIn env))"
    by blast
  define rest where "rest = rdBytes (dIn s)"
  define decl where "decl = uint32 (take 4 (drop 12 dataHdr))"
  have t2: "TransferredBytes (dTask out) = int (length data)" using o(2) d(10) by simp
  have t3: "dFile out = Some (lp, lfile)" using o(1) d(8) by simp
  have t4: "int (length data) \<le> uint decl" using d(6,7) decl_def by simp
  have t5: "int (length data) = uint decl \<or> rest = [] \<or> Some EOF \<in> snd ` set (butlast (connIn env))"
    using d(6,11) decl_def rest_def by simp
  have t6: "Some EOF \<notin> snd ` set (butlast (connIn env)) \<longrightarrow>
       data = take (unat decl) (data @ rest)
     \<and> TransferredBytes (dTask out) = min (uint decl) (int (length (data @ rest)))"
  proof
    assume "Some EOF \<notin> snd ` set (butlast (connIn env))"
    with t5 have k: "int (length data) = uint decl \<or> rest = []" by simp
    from take_declared [OF t4 k] t2
    show "data = take (unat decl) (data @ rest)
     \<and> TransferredBytes (dTask out) = min (uint decl) (int (length (data @ rest)))"
      by simp
  qed
  have d1: "rdBytes (connIn env) = ffo @ infoHdr @ info @ dataHdr @ data @ rest"
    using d(1) rest_def by simp
  have all: "rdBytes (connIn env) = ffo @ infoHdr @ info @ dataHdr @ data @ rest
              \<and> length ffo = 24 \<and> length infoHdr = 16
              \<and> length info = unat (uint32 (take 4 (drop 12 infoHdr)))
              \<and> length dataHdr = 16
              \<and> TransferredBytes (dTask out) = int (length data)
              \<and> dFile out = Some (lp, lfile) \<and> wbuf lfile = data
              \<and> int (length data) \<le> uint (uint32 (take 4 (drop 12 dataHdr)))
              \<and> (int (length data) = uint (uint32 (take 4 (drop 12 dataHdr)))
                   \<or> rest = [] \<or> Some EOF \<in> snd ` set (butlast (connIn env)))
              \<and> (Some EOF \<notin> snd ` set (butlast (connIn env)) \<longrightarrow>
                    data = take (unat (uint32 (take 4 (drop 12 dataHdr)))) (data @ rest)
                    \<and> TransferredBytes (dTask out)
                        = min (uint (uint32 (take 4 (drop 12 dataHdr))))
                              (int (length (data @ rest))))"
    unfolding decl_def [symmetric]
    by (intro conjI) (rule d1 d(2) d(3) d(4) d(5) t2 t3 d(9) t4 t5 t6)+
  then show "(\<exists>ffo infoHdr info dataHdr data rest lp lfile.
                rdBytes (connIn env) = ffo @ infoHdr @ info @ dataHdr @ data @ rest
              \<and> length ffo = 24 \<and> length infoHdr = 16
              \<and> length info = unat (uint32 (take 4 (drop 12 infoHdr)))
              \<and> length dataHdr = 16
              \<and> TransferredBytes (dTask out) = int (length data)
              \<and> dFile out = Some (lp, lfile) \<and> wbuf lfile = data
              \<and> int (length data) \<le> uint (uint32 (take 4 (drop 12 dataHdr)))
              \<and> (int (length data) = uint (uint32 (take 4 (drop 12 dataHdr)))
                   \<or> rest = [] \<or> Some EOF \<in> snd ` set (butlast (connIn env)))
              \<and> (Some EOF \<notin> snd ` set (butlast (connIn env)) \<longrightarrow>
                    data = take (unat (uint32 (take 4 (drop 12 dataHdr)))) (data @ rest)
                    \<and> TransferredBytes (dTask out)
                        = min (uint (uint32 (take 4 (drop 12 dataHdr))))
                              (int (length (data @ rest)))))"
    by (intro exI)
qed

lemma append_take_drop: "xs = a @ b \<Longrightarrow> length a = n \<Longrightarrow> a = take n xs \<and> b = drop n xs"
  by simp

text \<open>
  C2, as the code has it. The reply handler sets \<open>TotalBytes\<close> to the transfer size of
  the download reply and starts the worker on the Active task. When the worker ends with
  the task Completed, \<open>TotalBytes\<close> is still that transfer size; the stream read from
  the connection is the 24-byte container header, the 16-byte information-fork header,
  the information fork of the size declared there, the 16-byte data-fork header, the
  data, and what is left unread; the local file holds exactly the data and
  \<open>TransferredBytes\<close> is their number. That number is the size declared in the
  data-fork header unless the connection reported end-of-stream first. On a connection
  that reports \<open>io.EOF\<close> only with its last bytes or after them (it may report any other
  error anywhere), the data are the first \<open>declared size\<close> bytes that follow the
  data-fork header, all of them when there are fewer: \<open>TransferredBytes\<close> is the smaller
  of the declared size and the number of bytes the connection delivers after the
  data-fork header.
\<close>

theorem download_completed_sizes:
  "\<exists>task. snd (handleDownloadReplyMsg txID ref transferSize fileSize
                 (InitiateDownload taskID fileName filePath txID m))
            = Some (task, ref, transferSize)
     \<and> Status task = TaskActive \<and> TotalBytes task = uint transferSize
     \<and> (\<forall>out. performFileTransfer env task ref transferSize = Some out
              \<and> Status (dTask out) = TaskCompleted \<longrightarrow>
          TotalBytes (dTask out) = uint transferSize
          \<and> (\<exists>ffo infoHdr info dataHdr data rest lp lfile.
                rdBytes (connIn env) = ffo @ infoHdr @ info @ dataHdr @ data @ rest
              \<and> length ffo = 24 \<and> length infoHdr = 16
              \<and> length info = unat (uint32 (take 4 (drop 12 infoHdr)))
              \<and> length dataHdr = 16
              \<and> TransferredBytes (dTask out) = int (length data)
              \<and> dFile out = Some (lp, lfile) \<and> wbuf lfile = data
              \<and> int (length data) \<le> uint (uint32 (take 4 (drop 12 dataHdr)))
              \<and> (int (length data) = uint (uint32 (take 4 (drop 12 dataHdr)))
                   \<or> rest = [] \<or> Some EOF \<in> snd ` set (butlast (connIn env)))
              \<and> (Some EOF \<notin> snd ` set (butlast (connIn env)) \<longrightarrow>
                    data = take (unat (uint32 (take 4 (drop 12 dataHdr)))) (data @ rest)
                    \<and> TransferredBytes (dTask out)
                        = min (uint (uint32 (take 4 (drop 12 dataHdr))))
                              (int (length (data @ rest))))))"
proof -
  define task where "task = (newDownloadTask taskID fileName filePath)
               \<lparr>TotalBytes := uint transferSize, Status := TaskActive\<rparr>"
  have act: "Status task = TaskActive" and tot: "TotalBytes task = uint transferSize"
    and zero: "TransferredBytes task = 0"
    by (simp_all add: task_def newDownloadTask_def)
  have h: "snd (handleDownloadReplyMsg txID ref transferSize fileSize
                 (InitiateDownload taskID fileName filePath txID m))
            = Some (task, ref, transferSize)"
    unfolding task_def by (rule handleDownloadReplyMsg_initiated)
  have main: "\<forall>out. performFileTransfer env task ref transferSize = Some out
              \<and> Status (dTask out) = TaskCompleted \<longrightarrow>
          TotalBytes (dTask out) = uint transferSize
          \<and> (\<exists>ffo infoHdr info dataHdr data rest lp lfile.
                rdBytes (connIn env) = ffo @ infoHdr @ info @ dataHdr @ data @ rest
              \<and> length ffo = 24 \<and> length infoHdr = 16
              \<and> length info = unat (uint32 (take 4 (drop 12 infoHdr)))
              \<and> length dataHdr = 16
              \<and> TransferredBytes (dTask out) = int (length data)
              \<and> dFile out = Some (lp, lfile) \<and> wbuf lfile = data
              \<and> int (length data) \<le> uint (uint32 (take 4 (drop 12 dataHdr)))
              \<and> (int (length data) = uint (uint32 (take 4 (drop 12 dataHdr)))
                   \<or> rest = [] \<or> Some EOF \<in> snd ` set (butlast (connIn env)))
              \<and> (Some EOF \<notin> snd ` set (butlast (connIn env)) \<longrightarrow>
                    data = take (unat (uint32 (take 4 (drop 12 dataHdr)))) (data @ rest)
                    \<and> TransferredBytes (dTask out)
                        = min (uint (uint32 (take 4 (drop 12 dataHdr))))
                              (int (length (data @ rest)))))"
  proof (intro allI impI, elim conjE)
    fix out
    assume p: "performFileTransfer env task ref transferSize = Some out"
      and c: "Status (dTask out) = TaskCompleted"
    from download_sizes_body(1) [OF act zero p c] tot
    have a: "TotalBytes (dTask out) = uint transferSize" by simp
    from a download_sizes_body(2) [OF act zero p c]
    show "TotalBytes (dTask out) = uint transferSize
          \<and> (\<exists>ffo infoHdr info dataHdr data rest lp lfile.
                rdBytes (connIn env) = ffo @ infoHdr @ info @ dataHdr @ data @ rest
              \<and> length ffo = 24 \<and> length infoHdr = 16
              \<and> length info = unat (uint32 (take 4 (drop 12 infoHdr)))
              \<and> length dataHdr = 16
              \<and> TransferredBytes (dTask out) = int (length data)
              \<and> dFile out = Some (lp, lfile) \<and> wbuf lfile = data
              \<and> int (length data) \<le> uint (uint32 (take 4 (drop 12 dataHdr)))
              \<and> (int (length data) = uint (uint32 (take 4 (drop 12 dataHdr)))
                   \<or> rest = [] \<or> Some EOF \<in> snd ` set (butlast (connIn env)))
              \<and> (Some EOF \<notin> snd ` set (butlast (connIn env)) \<longrightarrow>
                    data = take (unat (uint32 (take 4 (drop 12 dataHdr)))) (data @ rest)
                    \<and> TransferredBytes (dTask out)
                        = min (uint (uint32 (take 4 (drop 12 dataHdr))))
                              (int (length (data @ rest)))))" by (rule conjI)
  qed
  show ?thesis
    by (rule exI [of _ task]) (intro conjI h act tot main)
qed

text \<open>C2 on a stream that declares a data fork of 4 bytes and delivers 6 bytes after
  the data-fork header, with \<open>io.EOF\<close> reported with the last of them, transfer size 62:
  the worker returns with the task Completed, and the theorem gives \<open>TotalBytes = 62\<close>,
  \<open>TransferredBytes = 4\<close> and the local file \<open>[1, 2, 3, 4]\<close>.\<close>

theorem download_completed_sizes_witness:
  "Some EOF \<notin> snd ` set (butlast (connIn (plainDownload
        [(ffoHeader 2 @ forkHeader ''INFO'' 0 @ forkHeader ''DATA'' 4 @ [1, 2, 3, 4, 9, 9],
          Some EOF)])))
   \<and> (\<exists>out. performFileTransfer
        (plainDownload
          [(ffoHeader 2 @ forkHeader ''INFO'' 0 @ forkHeader ''DATA'' 4 @ [1, 2, 3, 4, 9, 9],
            Some EOF)])
        ((newDownloadTask ''t'' ''f'' [])\<lparr>TotalBytes := 62, Status := TaskActive\<rparr>)
        (0, 0, 0, 7) 62 = Some out
     \<and> Status (dTask out) = TaskCompleted
     \<and> TotalBytes (dTask out) = 62
     \<and> TransferredBytes (dTask out) = 4
     \<and> (\<exists>lp lfile. dFile out = Some (lp, lfile) \<and> wbuf lfile = [1, 2, 3, 4]))"
proof -
  define env where "env = plainDownload
    [(ffoHeader 2 @ forkHeader ''INFO'' 0 @ forkHeader ''DATA'' 4 @ [1, 2, 3, 4, 9, 9],
      Some EOF)]"
  define B where "B = rdBytes (connIn env)"
  let ?task = "(newDownloadTask ''t'' ''f'' [])\<lparr>TotalBytes := 62, Status := TaskActive\<rparr>"
  have clean: "Some EOF \<notin> snd ` set (butlast (connIn env))"
    by (simp add: env_def plainDownload_def)
  have run: "map_option (\<lambda>out. Status (dTask out)) (performFileTransfer env ?task (0, 0, 0, 7) 62)
      = Some TaskCompleted"
    unfolding env_def by code_simp
  then obtain out where
    o: "performFileTransfer env ?task (0, 0, 0, 7) 62 = Some out"
       "Status (dTask out) = TaskCompleted"
    by auto
  have i0: "unat (uint32 (take 4 (drop 12 (take 16 (drop 24 B))))) = 0"
    unfolding B_def env_def by code_simp
  have d0: "take (unat (uint32 (take 4 (drop 12 (take 16 (drop 40 B)))))) (drop 56 B)
      = [1, 2, 3, 4]"
    unfolding B_def env_def by code_simp
  from download_completed_sizes
    [of "(0, 0, 0, 1)" "(0, 0, 0, 7)" 62 0 "''t''" "''f''" "[]" NewModel env]
  obtain task where
    t: "snd (handleDownloadReplyMsg (0, 0, 0, 1) (0, 0, 0, 7) 62 0
          (InitiateDownload ''t'' ''f'' [] (0, 0, 0, 1) NewModel)) = Some (task, (0, 0, 0, 7), 62)"
    and all: "\<forall>out. performFileTransfer env task (0, 0, 0, 7) 62 = Some out
              \<and> Status (dTask out) = TaskCompleted \<longrightarrow>
          TotalBytes (dTask out) = uint (62 :: 32 word)
          \<and> (\<exists>ffo infoHdr info dataHdr data rest lp lfile.
                rdBytes (connIn env) = ffo @ infoHdr @ info @ dataHdr @ data @ rest
              \<and> length ffo = 24 \<and> length infoHdr = 16
              \<and> length info = unat (uint32 (take 4 (drop 12 infoHdr)))
              \<and> length dataHdr = 16
              \<and> TransferredBytes (dTask out) = int (length data)
              \<and> dFile out = Some (lp, lfile) \<and> wbuf lfile = data
              \<and> int (length data) \<le> uint (uint32 (take 4 (drop 12 dataHdr)))
              \<and> (int (length data) = uint (uint32 (take 4 (drop 12 dataHdr)))
                   \<or> rest = [] \<or> Some EOF \<in> snd ` set (butlast (connIn env)))
              \<and> (Some EOF \<notin> snd ` set (butlast (connIn env)) \<longrightarrow>
                    data = take (unat (uint32 (take 4 (drop 12 dataHdr)))) (data @ rest)
                    \<and> TransferredBytes (dTask out)
                        = min (uint (uint32 (take 4 (drop 12 dataHdr))))
                              (int (length (data @ rest)))))"
    by blast
  have "snd (handleDownloadReplyMsg (0, 0, 0, 1) (0, 0, 0, 7) 62 0
          (InitiateDownload ''t'' ''f'' [] (0, 0, 0, 1) NewModel)) = Some (?task, (0, 0, 0, 7), 62)"
    by (simp add: handleDownloadReplyMsg_def InitiateDownload_def Get_def Add_def
        newDownloadTask_def Let_def NewModel_def NewTaskManager_def)
  with t have "task = ?task" by simp
  with all o clean obtain ffo infoHdr info dataHdr data rest lp lfile where
    tb: "TotalBytes (dTask out) = uint (62 :: 32 word)"
    and s: "B = ffo @ infoHdr @ info @ dataHdr @ data @ rest"
       "length ffo = 24" "length infoHdr = 16"
       "length info = unat (uint32 (take 4 (drop 12 infoHdr)))"
       "length dataHdr = 16"
    and r: "TransferredBytes (dTask out) = int (length data)"
       "dFile out = Some (lp, lfile)" "wbuf lfile = data"
       "data = take (unat (uint32 (take 4 (drop 12 dataHdr)))) (data @ rest)"
    unfolding B_def by blast
  from append_take_drop [OF s(1,2)] have
    a1: "infoHdr @ info @ dataHdr @ data @ rest = drop 24 B" by simp
  from append_take_drop [OF a1 [symmetric] s(3)] have
    a2: "infoHdr = take 16 (drop 24 B)" "info @ dataHdr @ data @ rest = drop 40 B"
    by simp_all
  from s(4) a2(1) i0 have "info = []" by simp
  with a2(2) have a3: "drop 40 B = dataHdr @ data @ rest" by simp
  from append_take_drop [OF a3 s(5)] have
    a4: "dataHdr = take 16 (drop 40 B)" "data @ rest = drop 56 B" by simp_all
  from r(4) a4 d0 have dat: "data = [1, 2, 3, 4]" by simp
  have x1: "TotalBytes (dTask out) = 62" using tb by simp
  have x2: "TransferredBytes (dTask out) = 4" using r(1) dat by simp
  have x3: "\<exists>lp lfile. dFile out = Some (lp, lfile) \<and> wbuf lfile = [1, 2, 3, 4]"
    using r(2,3) dat by simp
  from clean o x1 x2 x3 show ?thesis unfolding env_def by blast
qed

text \<open>
  C2 as stated fails. A download with declared data-fork size 0 and fork count 2 whose
  reply announced the 56 bytes of the stream completes with \<open>TotalBytes = 56\<close>, not 0.
  A download with declared data-fork size 10 whose stream ends after four data bytes
  completes with \<open>TransferredBytes = 4\<close> and \<open>TotalBytes = 66\<close>.
\<close>

theorem download_sizes_counterexample:
  "snd (handleDownloadReplyMsg (0, 0, 0, 1) (0, 0, 0, 7) 56 0
          (InitiateDownload ''t'' ''f'' [] (0, 0, 0, 1) NewModel))
     = Some ((newDownloadTask ''t'' ''f'' [])\<lparr>TotalBytes := 56, Status := TaskActive\<rparr>,
             (0, 0, 0, 7), 56)
   \<and> map_option (\<lambda>out. (Status (dTask out), TotalBytes (dTask out), TransferredBytes (dTask out),
        map_option (\<lambda>p. wbuf (snd p)) (dFile out)))
     (performFileTransfer
        (plainDownload [(ffoHeader 2 @ forkHeader ''INFO'' 0 @ forkHeader ''DATA'' 0, None)])
        ((newDownloadTask ''t'' ''f'' [])\<lparr>TotalBytes := 56, Status := TaskActive\<rparr>)
        (0, 0, 0, 7) 56)
     = Some (TaskCompleted, 56, 0, Some [])
   \<and> map_option (\<lambda>out. (Status (dTask out), TotalBytes (dTask out), TransferredBytes (dTask out),
        map_option (\<lambda>p. wbuf (snd p)) (dFile out)))
     (performFileTransfer
        (plainDownload [(ffoHeader 2 @ forkHeader ''INFO'' 0 @ forkHeader ''DATA'' 10
                           @ [1, 2, 3, 4], None)])
        ((newDownloadTask ''t'' ''f'' [])\<lparr>TotalBytes := 66, Status := TaskActive\<rparr>)
        (0, 0, 0, 7) 66)
     = Some (TaskCompleted, 66, 4, Some [1, 2, 3, 4])"
  by code_simp

subsection \<open>Which failures fail the task\<close>

lemma endsFailedI:
  assumes df: "dlDataFork env task ref sz = Some (Inl s)"
    and er: "Error (dTask s) = Some (Wrapped label e)"
  shows "endsFailed (performFileTransfer env task ref sz) task label e"
proof -
  from dlDataFork_Inl [OF df] have
    f: "Status (dTask s) = TaskFailed" "ID (dTask s) = ID task" by simp_all
  have p: "performFileTransfer env task ref sz = Some (dlDeferred s)"
    using df by (simp add: performFileTransfer_def)
  from dlDeferred_task [of s] f er have
    "Status (dTask (dlDeferred s)) = TaskFailed"
    "Error (dTask (dlDeferred s)) = Some (Wrapped label e)"
    "dSent (dlDeferred s) \<noteq> []"
    "last (dSent (dlDeferred s)) = TaskStatusMsg (ID task) TaskFailed (Some (Wrapped label e))"
    by simp_all
  with p show ?thesis by (simp add: endsFailed_def)
qed

lemma endsCompletedI:
  assumes df: "dlDataFork env task ref sz = Some (Inr (fc, ds, lp, s))"
    and act: "Status task = TaskActive"
  shows "endsCompleted (performFileTransfer env task ref sz) task"
proof -
  let ?s = "if fc = 3 then dlResourceFork env lp s else s"
  from dlDataFork_Inr [OF df] act have
    f: "Status (dTask s) = TaskActive" "Error (dTask s) = Error task" "ID (dTask s) = ID task"
    by simp_all
  have same: "dTask ?s = dTask s"
    using dlResourceFork_task [of env lp s] by simp
  have p: "performFileTransfer env task ref sz = Some (dlDeferred ?s)"
    using df by (simp add: performFileTransfer_def)
  from dlDeferred_task [of ?s] f same have
    "Status (dTask (dlDeferred ?s)) = TaskCompleted"
    "Error (dTask (dlDeferred ?s)) = Error task"
    "dSent (dlDeferred ?s) \<noteq> []"
    "last (dSent (dlDeferred ?s)) = TaskStatusMsg (ID task) TaskCompleted (Error task)"
    by simp_all
  with p show ?thesis by (simp add: endsCompleted_def)
qed

lemma fails_dial:
  assumes "dialErr env = Some e"
  shows "endsFailed (performFileTransfer env task ref sz) task ''connection failed'' e"
proof -
  have "\<exists>s. dlDataFork env task ref sz = Some (Inl s)
      \<and> Error (dTask s) = Some (Wrapped ''connection failed'' e)"
    using assms by (simp add: dlDataFork_def dlOpen_def dlFail_def failTask_def Let_def)
  then show ?thesis using endsFailedI by blast
qed

lemma fails_handshake:
  assumes "dialErr env = None"
    and w: "fst (Write (handshake ref sz) (connOut env)) = Some e"
  shows "endsFailed (performFileTransfer env task ref sz) task ''handshake failed'' e"
proof -
  from w obtain out' where "Write (handshake ref sz) (connOut env) = (Some e, out')"
    by (cases "Write (handshake ref sz) (connOut env)") auto
  with assms(1) have "\<exists>s. dlDataFork env task ref sz = Some (Inl s)
      \<and> Error (dTask s) = Some (Wrapped ''handshake failed'' e)"
    by (simp add: dlDataFork_def dlOpen_def dlFail_def failTask_def Let_def)
  then show ?thesis using endsFailedI by blast
qed

lemma fails_mkdir:
  assumes "dialErr env = None"
    and w: "fst (Write (handshake ref sz) (connOut env)) = None"
    and "resolveDownloadPath (pathJoin env) (fsStat env) (downloadDir env) (FileName task)
           = Some lp"
    and "mkdirErr env = Some e"
  shows "endsFailed (performFileTransfer env task ref sz) task ''mkdir failed'' e"
proof -
  from w obtain out' where "Write (handshake ref sz) (connOut env) = (None, out')"
    by (cases "Write (handshake ref sz) (connOut env)") auto
  with assms(1,3,4) have "\<exists>s. dlDataFork env task ref sz = Some (Inl s)
      \<and> Error (dTask s) = Some (Wrapped ''mkdir failed'' e)"
    by (simp add: dlDataFork_def dlOpen_def dlFail_def failTask_def Let_def)
  then show ?thesis using endsFailedI by blast
qed

lemma fails_create:
  assumes "dialErr env = None"
    and w: "fst (Write (handshake ref sz) (connOut env)) = None"
    and "resolveDownloadPath (pathJoin env) (fsStat env) (downloadDir env) (FileName task)
           = Some lp"
    and "mkdirErr env = None" and "createErr env = Some e"
  shows "endsFailed (performFileTransfer env task ref sz) task ''create file failed'' e"
proof -
  from w obtain out' where "Write (handshake ref sz) (connOut env) = (None, out')"
    by (cases "Write (handshake ref sz) (connOut env)") auto
  with assms(1,3,4,5) have "\<exists>s. dlDataFork env task ref sz = Some (Inl s)
      \<and> Error (dTask s) = Some (Wrapped ''create file failed'' e)"
    by (simp add: dlDataFork_def dlOpen_def dlFail_def failTask_def Let_def)
  then show ?thesis using endsFailedI by blast
qed

lemma dlOpen_opened:
  assumes "dialErr env = None"
    and w: "fst (Write (handshake ref sz) (connOut env)) = None"
    and "resolveDownloadPath (pathJoin env) (fsStat env) (downloadDir env) (FileName task)
           = Some lp"
    and "mkdirErr env = None" and "createErr env = None"
  shows "\<exists>s. dlOpen env task ref sz = Some (Inr (lp, newFile (fileRoom env), s))
     \<and> dTask s = task\<lparr>LocalPath := lp\<rparr> \<and> dIn s = connIn env"
proof -
  from w obtain out' where "Write (handshake ref sz) (connOut env) = (None, out')"
    by (cases "Write (handshake ref sz) (connOut env)") auto
  with assms(1,3,4,5) show ?thesis
    by (simp add: dlOpen_def Let_def)
qed

lemma fails_headers:
  assumes op: "dlOpen env task ref sz = Some (Inr (lp, lfile, s))"
    and rh: "dlReadHeaders s = Inl s'"
    and er: "Error (dTask s') = Some (Wrapped label e)"
  shows "endsFailed (performFileTransfer env task ref sz) task label e"
proof -
  from op rh have "dlDataFork env task ref sz = Some (Inl s')"
    by (simp add: dlDataFork_def)
  from endsFailedI [OF this er] show ?thesis .
qed

lemma pair_fst:
  "fst p = Some e \<Longrightarrow> \<exists>a b. p = (Some e, a, b)"
  by (cases p) auto

lemma headers_ffo:
  assumes "fst (ReadFull 24 (dIn s)) = Some e"
  shows "\<exists>s'. dlReadHeaders s = Inl s'
     \<and> Error (dTask s') = Some (Wrapped ''read FFO header failed'' e)"
proof -
  from pair_fst [OF assms] obtain a b where "ReadFull 24 (dIn s) = (Some e, a, b)" by blast
  then show ?thesis by (simp add: dlReadHeaders_def dlFail_def failTask_def)
qed

lemma headers_infoHdr:
  assumes "ReadFull 24 (dIn s) = (None, ffo, in1)"
    and "fst (ReadFull 16 in1) = Some e"
  shows "\<exists>s'. dlReadHeaders s = Inl s'
     \<and> Error (dTask s') = Some (Wrapped ''read info fork header failed'' e)"
proof -
  from pair_fst [OF assms(2)] obtain a b where "ReadFull 16 in1 = (Some e, a, b)" by blast
  with assms(1) show ?thesis by (simp add: dlReadHeaders_def dlFail_def failTask_def Let_def)
qed

lemma headers_info:
  assumes "ReadFull 24 (dIn s) = (None, ffo, in1)"
    and "ReadFull 16 in1 = (None, infoHdr, in2)"
    and "fst (CopyN Discard in2 (unat (uint32 (take 4 (drop 12 infoHdr))))) = Some e"
  shows "\<exists>s'. dlReadHeaders s = Inl s'
     \<and> Error (dTask s') = Some (Wrapped ''read info fork failed'' e)"
proof -
  from pair_fst [OF assms(3)] obtain a b where
    "CopyN Discard in2 (unat (uint32 (take 4 (drop 12 infoHdr)))) = (Some e, a, b)" by blast
  with assms(1,2) show ?thesis
    by (simp add: dlReadHeaders_def dlFail_def failTask_def Let_def)
qed

lemma headers_dataHdr:
  assumes "ReadFull 24 (dIn s) = (None, ffo, in1)"
    and "ReadFull 16 in1 = (None, infoHdr, in2)"
    and "CopyN Discard in2 (unat (uint32 (take 4 (drop 12 infoHdr)))) = (None, in3, disc)"
    and "fst (ReadFull 16 in3) = Some e"
  shows "\<exists>s'. dlReadHeaders s = Inl s'
     \<and> Error (dTask s') = Some (Wrapped ''read data fork header failed'' e)"
proof -
  from pair_fst [OF assms(4)] obtain a b where "ReadFull 16 in3 = (Some e, a, b)" by blast
  with assms(1,2,3) show ?thesis
    by (simp add: dlReadHeaders_def dlFail_def failTask_def Let_def)
qed

lemma headers_read:
  assumes "ReadFull 24 (dIn s) = (None, ffo, in1)"
    and "ReadFull 16 in1 = (None, infoHdr, in2)"
    and "CopyN Discard in2 (unat (uint32 (take 4 (drop 12 infoHdr)))) = (None, in3, disc)"
    and "ReadFull 16 in3 = (None, dataHdr, in4)"
  shows "dlReadHeaders s = Inr (uint16 (take 2 (drop 22 ffo)),
           uint32 (take 4 (drop 12 dataHdr)), s\<lparr>dIn := in4\<rparr>)"
  using assms by (simp add: dlReadHeaders_def Let_def)

lemma data_fails:
  assumes op: "dlOpen env task ref sz = Some (Inr (lp, newFile (fileRoom env), s))"
    and s: "dTask s = task\<lparr>LocalPath := lp\<rparr>"
    and rh: "dlReadHeaders s = Inr (fc, ds, s\<lparr>dIn := in4\<rparr>)"
    and cp: "fst (copyWithProgress (newFile (fileRoom env)) in4 (uint ds)
               (task\<lparr>LocalPath := lp\<rparr>) (dlTicks env)) = Some e"
  shows "endsFailed (performFileTransfer env task ref sz) task ''data transfer failed'' e"
proof -
  obtain c where c: "copyWithProgress (newFile (fileRoom env)) in4 (uint ds)
               (task\<lparr>LocalPath := lp\<rparr>) (dlTicks env) = (Some e, c)"
    using cp by (cases "copyWithProgress (newFile (fileRoom env)) in4 (uint ds)
               (task\<lparr>LocalPath := lp\<rparr>) (dlTicks env)") auto
  have "\<exists>s'. dlCopyData env lp (newFile (fileRoom env)) ds (s\<lparr>dIn := in4\<rparr>) = Inl s'
      \<and> Error (dTask s') = Some (Wrapped ''data transfer failed'' e)"
    using c s by (simp add: dlCopyData_def dlFail_def failTask_def Let_def)
  then obtain s' where
    x: "dlCopyData env lp (newFile (fileRoom env)) ds (s\<lparr>dIn := in4\<rparr>) = Inl s'"
       "Error (dTask s') = Some (Wrapped ''data transfer failed'' e)" by blast
  from op rh x(1) have "dlDataFork env task ref sz = Some (Inl s')"
    by (simp add: dlDataFork_def)
  from endsFailedI [OF this x(2)] show ?thesis .
qed

lemma data_copied:
  assumes op: "dlOpen env task ref sz = Some (Inr (lp, newFile (fileRoom env), s))"
    and s: "dTask s = task\<lparr>LocalPath := lp\<rparr>"
    and rh: "dlReadHeaders s = Inr (fc, ds, s\<lparr>dIn := in4\<rparr>)"
    and cp: "fst (copyWithProgress (newFile (fileRoom env)) in4 (uint ds)
               (task\<lparr>LocalPath := lp\<rparr>) (dlTicks env)) = None"
    and act: "Status task = TaskActive"
  shows "endsCompleted (performFileTransfer env task ref sz) task"
proof -
  obtain c where c: "copyWithProgress (newFile (fileRoom env)) in4 (uint ds)
               (task\<lparr>LocalPath := lp\<rparr>) (dlTicks env) = (None, c)"
    using cp by (cases "copyWithProgress (newFile (fileRoom env)) in4 (uint ds)
               (task\<lparr>LocalPath := lp\<rparr>) (dlTicks env)") auto
  have "\<exists>s'. dlCopyData env lp (newFile (fileRoom env)) ds (s\<lparr>dIn := in4\<rparr>) = Inr s'"
    using c s by (simp add: dlCopyData_def Let_def)
  then obtain s' where
    x: "dlCopyData env lp (newFile (fileRoom env)) ds (s\<lparr>dIn := in4\<rparr>) = Inr s'" by blast
  from op rh x have "dlDataFork env task ref sz = Some (Inr (fc, ds, lp, s'))"
    by (simp add: dlDataFork_def)
  from endsCompletedI [OF this act] show ?thesis .
qed

lemma fails_ffo:
  assumes o1: "dialErr env = None"
    and o2: "fst (Write (handshake ref sz) (connOut env)) = None"
    and o3: "resolveDownloadPath (pathJoin env) (fsStat env) (downloadDir env) (FileName task)
           = Some lp"
    and o4: "mkdirErr env = None" and o5: "createErr env = None"
    and f: "fst (ReadFull 24 (connIn env)) = Some e"
  shows "endsFailed (performFileTransfer env task ref sz) task ''read FFO header failed'' e"
proof -
  from dlOpen_opened [OF o1 o2 o3 o4 o5] obtain s where
    op: "dlOpen env task ref sz = Some (Inr (lp, newFile (fileRoom env), s))"
    and i: "dIn s = connIn env" by blast
  from f i have f': "fst (ReadFull 24 (dIn s)) = Some e" by simp
  from headers_ffo [OF f'] obtain s' where
    "dlReadHeaders s = Inl s'" "Error (dTask s') = Some (Wrapped ''read FFO header failed'' e)"
    by blast
  from fails_headers [OF op this] show ?thesis .
qed

lemma fails_infoHdr:
  assumes o1: "dialErr env = None"
    and o2: "fst (Write (handshake ref sz) (connOut env)) = None"
    and o3: "resolveDownloadPath (pathJoin env) (fsStat env) (downloadDir env) (FileName task)
           = Some lp"
    and o4: "mkdirErr env = None" and o5: "createErr env = None"
    and r1: "ReadFull 24 (connIn env) = (None, ffo, in1)"
    and f: "fst (ReadFull 16 in1) = Some e"
  shows "endsFailed (performFileTransfer env task ref sz) task ''read info fork header failed'' e"
proof -
  from dlOpen_opened [OF o1 o2 o3 o4 o5] obtain s where
    op: "dlOpen env task ref sz = Some (Inr (lp, newFile (fileRoom env), s))"
    and i: "dIn s = connIn env" by blast
  from r1 i have r1': "ReadFull 24 (dIn s) = (None, ffo, in1)" by simp
  from headers_infoHdr [OF r1'  f] obtain s' where
    "dlReadHeaders s = Inl s'" "Error (dTask s') = Some (Wrapped ''read info fork header failed'' e)"
    by blast
  from fails_headers [OF op this] show ?thesis .
qed

lemma fails_info:
  assumes o1: "dialErr env = None"
    and o2: "fst (Write (handshake ref sz) (connOut env)) = None"
    and o3: "resolveDownloadPath (pathJoin env) (fsStat env) (downloadDir env) (FileName task)
           = Some lp"
    and o4: "mkdirErr env = None" and o5: "createErr env = None"
    and r1: "ReadFull 24 (connIn env) = (None, ffo, in1)"
    and r2: "ReadFull 16 in1 = (None, infoHdr, in2)"
    and f: "fst (CopyN Discard in2 (unat (uint32 (take 4 (drop 12 infoHdr))))) = Some e"
  shows "endsFailed (performFileTransfer env task ref sz) task ''read info fork failed'' e"
proof -
  from dlOpen_opened [OF o1 o2 o3 o4 o5] obtain s where
    op: "dlOpen env task ref sz = Some (Inr (lp, newFile (fileRoom env), s))"
    and i: "dIn s = connIn env" by blast
  from r1 i have r1': "ReadFull 24 (dIn s) = (None, ffo, in1)" by simp
  from headers_info [OF r1' r2 f] obtain s' where
    "dlReadHeaders s = Inl s'" "Error (dTask s') = Some (Wrapped ''read info fork failed'' e)"
    by blast
  from fails_headers [OF op this] show ?thesis .
qed

lemma fails_dataHdr:
  assumes o1: "dialErr env = None"
    and o2: "fst (Write (handshake ref sz) (connOut env)) = None"
    and o3: "resolveDownloadPath (pathJoin env) (fsStat env) (downloadDir env) (FileName task)
           = Some lp"
    and o4: "mkdirErr env = None" and o5: "createErr env = None"
    and r1: "ReadFull 24 (connIn env) = (None, ffo, in1)"
    and r2: "ReadFull 16 in1 = (None, infoHdr, in2)"
    and r3: "CopyN Discard in2 (unat (uint32 (take 4 (drop 12 infoHdr)))) = (None, in3, disc)"
    and f: "fst (ReadFull 16 in3) = Some e"
  shows "endsFailed (performFileTransfer env task ref sz) task ''read data fork header failed'' e"
proof -
  from dlOpen_opened [OF o1 o2 o3 o4 o5] obtain s where
    op: "dlOpen env task ref sz = Some (Inr (lp, newFile (fileRoom env), s))"
    and i: "dIn s = connIn env" by blast
  from r1 i have r1': "ReadFull 24 (dIn s) = (None, ffo, in1)" by simp
  from headers_dataHdr [OF r1' r2 r3 f] obtain s' where
    "dlReadHeaders s = Inl s'" "Error (dTask s') = Some (Wrapped ''read data fork header failed'' e)"
    by blast
  from fails_headers [OF op this] show ?thesis .
qed

lemma fails_data:
  assumes o1: "dialErr env = None"
    and o2: "fst (Write (handshake ref sz) (connOut env)) = None"
    and o3: "resolveDownloadPath (pathJoin env) (fsStat env) (downloadDir env) (FileName task)
           = Some lp"
    and o4: "mkdirErr env = None" and o5: "createErr env = None"
    and r1: "ReadFull 24 (connIn env) = (None, ffo, in1)"
    and r2: "ReadFull 16 in1 = (None, infoHdr, in2)"
    and r3: "CopyN Discard in2 (unat (uint32 (take 4 (drop 12 infoHdr)))) = (None, in3, disc)"
    and r4: "ReadFull 16 in3 = (None, dataHdr, in4)"
    and f: "fst (copyWithProgress (newFile (fileRoom env)) in4
               (uint (uint32 (take 4 (drop 12 dataHdr)))) (task\<lparr>LocalPath := lp\<rparr>) (dlTicks env)) = Some e"
  shows "endsFailed (performFileTransfer env task ref sz) task ''data transfer failed'' e"
proof -
  from dlOpen_opened [OF o1 o2 o3 o4 o5] obtain s where
    op: "dlOpen env task ref sz = Some (Inr (lp, newFile (fileRoom env), s))"
    and t: "dTask s = task\<lparr>LocalPath := lp\<rparr>"
    and i: "dIn s = connIn env" by blast
  from r1 i have r1': "ReadFull 24 (dIn s) = (None, ffo, in1)" by simp
  from data_fails [OF op t headers_read [OF r1' r2 r3 r4] f] show ?thesis .
qed

lemma completes_data:
  assumes o1: "dialErr env = None"
    and o2: "fst (Write (handshake ref sz) (connOut env)) = None"
    and o3: "resolveDownloadPath (pathJoin env) (fsStat env) (downloadDir env) (FileName task)
           = Some lp"
    and o4: "mkdirErr env = None" and o5: "createErr env = None"
    and r1: "ReadFull 24 (connIn env) = (None, ffo, in1)"
    and r2: "ReadFull 16 in1 = (None, infoHdr, in2)"
    and r3: "CopyN Discard in2 (unat (uint32 (take 4 (drop 12 infoHdr)))) = (None, in3, disc)"
    and r4: "ReadFull 16 in3 = (None, dataHdr, in4)"
    and f: "fst (copyWithProgress (newFile (fileRoom env)) in4
               (uint (uint32 (take 4 (drop 12 dataHdr)))) (task\<lparr>LocalPath := lp\<rparr>) (dlTicks env)) = None"
    and act: "Status task = TaskActive"
  shows "endsCompleted (performFileTransfer env task ref sz) task"
proof -
  from dlOpen_opened [OF o1 o2 o3 o4 o5] obtain s where
    op: "dlOpen env task ref sz = Some (Inr (lp, newFile (fileRoom env), s))"
    and t: "dTask s = task\<lparr>LocalPath := lp\<rparr>"
    and i: "dIn s = connIn env" by blast
  from r1 i have r1': "ReadFull 24 (dIn s) = (None, ffo, in1)" by simp
  from data_copied [OF op t headers_read [OF r1' r2 r3 r4] f act] show ?thesis .
qed

lemma data_error_cause:
  assumes "fst (copyWithProgress (newFile room) src n t ticks) = Some e"
  shows "(e \<noteq> EOF \<and> Some e \<in> snd ` set src) \<or> (e = OSError ''write'' \<and> room \<noteq> None)"
  using copyWithProgress_error [OF assms] by (simp add: newFile_def)

lemma data_clean:
  assumes "rdClean src" and "room = None"
  shows "fst (copyWithProgress (newFile room) src n t ticks) = None"
  using copyWithProgress_clean [of src "newFile room" n t ticks] assms
  by (simp add: newFile_def)

text \<open>
  C8, as the code has it. The first step of the download worker that returns an error
  decides the outcome, and the error of that step is the one attached. A failed dial
  ends the task Failed with \<open>connection failed\<close> wrapping the dial error; with the
  connection open, a failed write of the handshake ends it Failed with
  \<open>handshake failed\<close>; then a failed \<open>os.MkdirAll\<close> with \<open>mkdir failed\<close>, a failed
  \<open>os.Create\<close> with \<open>create file failed\<close>, a failed read of the container header with
  \<open>read FFO header failed\<close>, of the information-fork header with
  \<open>read info fork header failed\<close>, of the information fork with
  \<open>read info fork failed\<close>, of the data-fork header with
  \<open>read data fork header failed\<close>, and an error returned by the copy of the data fork
  with \<open>data transfer failed\<close>; in each case the status message sent last carries
  Failed and that wrapped error. The copy of the data fork returns an error only for a
  failed write to the local file or a read error other than \<open>io.EOF\<close>; on a connection
  that reports no error, into a file that accepts every write, it returns none, however
  few bytes arrive. Once the copy has returned no error, an Active task ends Completed
  with its error unchanged, whatever the fork count, the rest of the stream and the
  outcome of creating and writing the sidecar: the resource-fork step never touches
  the task. The worker returns whenever the path resolution does.
\<close>

theorem download_failure_semantics:
  "(dialErr env = Some e \<longrightarrow>
      endsFailed (performFileTransfer env task ref sz) task ''connection failed'' e)
   \<and> (dialErr env = None \<longrightarrow>
      (fst (Write (handshake ref sz) (connOut env)) = Some e \<longrightarrow>
         endsFailed (performFileTransfer env task ref sz) task ''handshake failed'' e)
    \<and> (fst (Write (handshake ref sz) (connOut env)) = None
        \<and> resolveDownloadPath (pathJoin env) (fsStat env) (downloadDir env) (FileName task)
            = Some lp \<longrightarrow>
      (mkdirErr env = Some e \<longrightarrow>
         endsFailed (performFileTransfer env task ref sz) task ''mkdir failed'' e)
    \<and> (mkdirErr env = None \<longrightarrow>
      (createErr env = Some e \<longrightarrow>
         endsFailed (performFileTransfer env task ref sz) task ''create file failed'' e)
    \<and> (createErr env = None \<longrightarrow>
      (fst (ReadFull 24 (connIn env)) = Some e \<longrightarrow>
         endsFailed (performFileTransfer env task ref sz) task ''read FFO header failed'' e)
    \<and> (ReadFull 24 (connIn env) = (None, ffo, in1) \<longrightarrow>
      (fst (ReadFull 16 in1) = Some e \<longrightarrow>
         endsFailed (performFileTransfer env task ref sz) task ''read info fork header failed'' e)
    \<and> (ReadFull 16 in1 = (None, infoHdr, in2) \<longrightarrow>
      (fst (CopyN Discard in2 (unat (uint32 (take 4 (drop 12 infoHdr))))) = Some e \<longrightarrow>
         endsFailed (performFileTransfer env task ref sz) task ''read info fork failed'' e)
    \<and> (CopyN Discard in2 (unat (uint32 (take 4 (drop 12 infoHdr)))) = (None, in3, disc) \<longrightarrow>
      (fst (ReadFull 16 in3) = Some e \<longrightarrow>
         endsFailed (performFileTransfer env task ref sz) task ''read data fork header failed'' e)
    \<and> (ReadFull 16 in3 = (None, dataHdr, in4) \<longrightarrow>
      (fst (copyWithProgress (newFile (fileRoom env)) in4
               (uint (uint32 (take 4 (drop 12 dataHdr)))) (task\<lparr>LocalPath := lp\<rparr>) (dlTicks env)) = Some e \<longrightarrow>
         endsFailed (performFileTransfer env task ref sz) task ''data transfer failed'' e
         \<and> ((e \<noteq> EOF \<and> Some e \<in> snd ` set in4)
              \<or> (e = OSError ''write'' \<and> fileRoom env \<noteq> None)))
    \<and> (fst (copyWithProgress (newFile (fileRoom env)) in4
               (uint (uint32 (take 4 (drop 12 dataHdr)))) (task\<lparr>LocalPath := lp\<rparr>) (dlTicks env)) = None
        \<and> Status task = TaskActive \<longrightarrow>
         endsCompleted (performFileTransfer env task ref sz) task)
    \<and> (rdClean in4 \<and> fileRoom env = None \<longrightarrow>
         fst (copyWithProgress (newFile (fileRoom env)) in4
               (uint (uint32 (take 4 (drop 12 dataHdr)))) (task\<lparr>LocalPath := lp\<rparr>) (dlTicks env)) = None)))))))))
   \<and> dTask (dlResourceFork env lp' s) = dTask s
   \<and> (resolveDownloadPath (pathJoin env) (fsStat env) (downloadDir env) (FileName task) \<noteq> None
        \<longrightarrow> performFileTransfer env task ref sz \<noteq> None)"
proof (intro conjI impI)
  show "dTask (dlResourceFork env lp' s) = dTask s"
    using dlResourceFork_task [of env lp' s] by simp
next
  assume "resolveDownloadPath (pathJoin env) (fsStat env) (downloadDir env) (FileName task)
    \<noteq> None"
  from dlDataFork_total [OF this, of ref sz]
  show "performFileTransfer env task ref sz \<noteq> None"
    by (auto simp: performFileTransfer_def split: option.splits sum.splits prod.splits)
qed ((elim conjE)?,
     (rule fails_dial fails_handshake fails_mkdir fails_create fails_ffo fails_infoHdr fails_info
        fails_dataHdr fails_data completes_data data_error_cause data_clean; assumption))+

text \<open>C8 on four downloads: the dial is refused; the stream ends six bytes into the
  container header; the local file accepts two of the four data bytes; the stream
  announces three forks and the sidecar cannot be created (the task ends Completed and
  no sidecar exists).\<close>

theorem download_failure_semantics_witness:
  "endsFailed (performFileTransfer
       ((plainDownload [])\<lparr>dialErr := Some (OSError ''refused'')\<rparr>)
       ((newDownloadTask ''t'' ''f'' [])\<lparr>TotalBytes := 60, Status := TaskActive\<rparr>)
       (0, 0, 0, 7) 60)
     ((newDownloadTask ''t'' ''f'' [])\<lparr>TotalBytes := 60, Status := TaskActive\<rparr>)
     ''connection failed'' (OSError ''refused'')
   \<and> endsFailed (performFileTransfer
       (plainDownload [([0, 0, 0, 0, 0, 1], None)])
       ((newDownloadTask ''t'' ''f'' [])\<lparr>TotalBytes := 60, Status := TaskActive\<rparr>)
       (0, 0, 0, 7) 60)
     ((newDownloadTask ''t'' ''f'' [])\<lparr>TotalBytes := 60, Status := TaskActive\<rparr>)
     ''read FFO header failed'' ErrUnexpectedEOF
   \<and> endsFailed (performFileTransfer
       ((plainDownload [(ffoHeader 2 @ forkHeader ''INFO'' 0 @ forkHeader ''DATA'' 4
                           @ [1, 2, 3, 4], None)])\<lparr>fileRoom := Some 2\<rparr>)
       ((newDownloadTask ''t'' ''f'' [])\<lparr>TotalBytes := 60, Status := TaskActive\<rparr>)
       (0, 0, 0, 7) 60)
     ((newDownloadTask ''t'' ''f'' [])\<lparr>TotalBytes := 60, Status := TaskActive\<rparr>)
     ''data transfer failed'' (OSError ''write'')
   \<and> endsCompleted (performFileTransfer
       ((plainDownload [(ffoHeader 3 @ forkHeader ''INFO'' 0 @ forkHeader ''DATA'' 2 @ [5, 6]
                           @ forkHeader ''MACR'' 2 @ [7, 8], None)])
          \<lparr>resCreateErr := Some (OSError ''denied'')\<rparr>)
       ((newDownloadTask ''t'' ''f'' [])\<lparr>TotalBytes := 60, Status := TaskActive\<rparr>)
       (0, 0, 0, 7) 60)
     ((newDownloadTask ''t'' ''f'' [])\<lparr>TotalBytes := 60, Status := TaskActive\<rparr>)
   \<and> map_option dResFile (performFileTransfer
       ((plainDownload [(ffoHeader 3 @ forkHeader ''INFO'' 0 @ forkHeader ''DATA'' 2 @ [5, 6]
                           @ forkHeader ''MACR'' 2 @ [7, 8], None)])
          \<lparr>resCreateErr := Some (OSError ''denied'')\<rparr>)
       ((newDownloadTask ''t'' ''f'' [])\<lparr>TotalBytes := 60, Status := TaskActive\<rparr>)
       (0, 0, 0, 7) 60) = Some None"
proof -
  define task where
    "task = (newDownloadTask ''t'' ''f'' [])\<lparr>TotalBytes := 60, Status := TaskActive\<rparr>"
  define ref :: refnum where "ref = (0, 0, 0, 7)"
  define envA where "envA = (plainDownload [])\<lparr>dialErr := Some (OSError ''refused'')\<rparr>"
  define envD where "envD = plainDownload [([0, 0, 0, 0, 0, 1], None)]"
  define envB where "envB = (plainDownload
     [(ffoHeader 2 @ forkHeader ''INFO'' 0 @ forkHeader ''DATA'' 4 @ [1, 2, 3, 4], None)])
     \<lparr>fileRoom := Some 2\<rparr>"
  define envC where "envC = (plainDownload
     [(ffoHeader 3 @ forkHeader ''INFO'' 0 @ forkHeader ''DATA'' 2 @ [5, 6]
         @ forkHeader ''MACR'' 2 @ [7, 8], None)])\<lparr>resCreateErr := Some (OSError ''denied'')\<rparr>"
  have act: "Status task = TaskActive" by (simp add: task_def)
  have a0: "dialErr envA = Some (OSError ''refused'')" by (simp add: envA_def plainDownload_def)
  from download_failure_semantics [where env = envA and e = "OSError ''refused''"
      and task = task and ref = ref and sz = 60] a0
  have A: "endsFailed (performFileTransfer envA task ref 60) task ''connection failed''
      (OSError ''refused'')" by blast
  have d1: "dialErr envD = None" "mkdirErr envD = None" "createErr envD = None"
    by (simp_all add: envD_def plainDownload_def)
  have d2: "fst (Write (handshake ref 60) (connOut envD)) = None"
    unfolding envD_def ref_def by code_simp
  have d3: "resolveDownloadPath (pathJoin envD) (fsStat envD) (downloadDir envD) (FileName task)
      = Some ''dl/f''"
    unfolding envD_def task_def by code_simp
  have d4: "fst (ReadFull 24 (connIn envD)) = Some ErrUnexpectedEOF"
    unfolding envD_def by code_simp
  from download_failure_semantics [where env = envD and e = ErrUnexpectedEOF
      and task = task and ref = ref and sz = 60 and lp = "''dl/f''"] d1 d2 d3 d4
  have D: "endsFailed (performFileTransfer envD task ref 60) task ''read FFO header failed''
      ErrUnexpectedEOF" by blast
  define Fb where "Fb = fst (snd (ReadFull 24 (connIn envB)))"
  define I1b where "I1b = snd (snd (ReadFull 24 (connIn envB)))"
  define Hb where "Hb = fst (snd (ReadFull 16 I1b))"
  define I2b where "I2b = snd (snd (ReadFull 16 I1b))"
  define I3b where
    "I3b = fst (snd (CopyN Discard I2b (unat (uint32 (take 4 (drop 12 Hb))))))"
  define Xb where
    "Xb = snd (snd (CopyN Discard I2b (unat (uint32 (take 4 (drop 12 Hb))))))"
  define Db where "Db = fst (snd (ReadFull 16 I3b))"
  define I4b where "I4b = snd (snd (ReadFull 16 I3b))"
  have b1: "dialErr envB = None" "mkdirErr envB = None" "createErr envB = None"
    by (simp_all add: envB_def plainDownload_def)
  have b2: "fst (Write (handshake ref 60) (connOut envB)) = None"
    unfolding envB_def ref_def by code_simp
  have b3: "resolveDownloadPath (pathJoin envB) (fsStat envB) (downloadDir envB) (FileName task)
      = Some ''dl/f''"
    unfolding envB_def task_def by code_simp
  have b4: "ReadFull 24 (connIn envB) = (None, Fb, I1b)"
    unfolding Fb_def I1b_def envB_def by code_simp
  have b5: "ReadFull 16 I1b = (None, Hb, I2b)"
    unfolding Hb_def I2b_def I1b_def envB_def by code_simp
  have b6: "CopyN Discard I2b (unat (uint32 (take 4 (drop 12 Hb)))) = (None, I3b, Xb)"
    unfolding I3b_def Xb_def Hb_def I2b_def I1b_def envB_def by code_simp
  have b7: "ReadFull 16 I3b = (None, Db, I4b)"
    unfolding Db_def I4b_def I3b_def Hb_def I2b_def I1b_def envB_def by code_simp
  have b8: "fst (copyWithProgress (newFile (fileRoom envB)) I4b
      (uint (uint32 (take 4 (drop 12 Db)))) (task\<lparr>LocalPath := ''dl/f''\<rparr>) (dlTicks envB))
      = Some (OSError ''write'')"
    unfolding Db_def I4b_def I3b_def Hb_def I2b_def I1b_def envB_def task_def by code_simp
  from download_failure_semantics [where env = envB and e = "OSError ''write''"
      and task = task and ref = ref and sz = 60 and lp = "''dl/f''" and ffo = Fb and ?in1.0 = I1b
      and infoHdr = Hb and ?in2.0 = I2b and ?in3.0 = I3b and disc = Xb and dataHdr = Db
      and ?in4.0 = I4b]
    b1 b2 b3 b4 b5 b6 b7 b8
  have B: "endsFailed (performFileTransfer envB task ref 60) task ''data transfer failed''
      (OSError ''write'')" by blast
  define Fc where "Fc = fst (snd (ReadFull 24 (connIn envC)))"
  define I1c where "I1c = snd (snd (ReadFull 24 (connIn envC)))"
  define Hc where "Hc = fst (snd (ReadFull 16 I1c))"
  define I2c where "I2c = snd (snd (ReadFull 16 I1c))"
  define I3c where
    "I3c = fst (snd (CopyN Discard I2c (unat (uint32 (take 4 (drop 12 Hc))))))"
  define Xc where
    "Xc = snd (snd (CopyN Discard I2c (unat (uint32 (take 4 (drop 12 Hc))))))"
  define Dc where "Dc = fst (snd (ReadFull 16 I3c))"
  define I4c where "I4c = snd (snd (ReadFull 16 I3c))"
  have c1: "dialErr envC = None" "mkdirErr envC = None" "createErr envC = None"
    by (simp_all add: envC_def plainDownload_def)
  have c2: "fst (Write (handshake ref 60) (connOut envC)) = None"
    unfolding envC_def ref_def by code_simp
  have c3: "resolveDownloadPath (pathJoin envC) (fsStat envC) (downloadDir envC) (FileName task)
      = Some ''dl/f''"
    unfolding envC_def task_def by code_simp
  have c4: "ReadFull 24 (connIn envC) = (None, Fc, I1c)"
    unfolding Fc_def I1c_def envC_def by code_simp
  have c5: "ReadFull 16 I1c = (None, Hc, I2c)"
    unfolding Hc_def I2c_def I1c_def envC_def by code_simp
  have c6: "CopyN Discard I2c (unat (uint32 (take 4 (drop 12 Hc)))) = (None, I3c, Xc)"
    unfolding I3c_def Xc_def Hc_def I2c_def I1c_def envC_def by code_simp
  have c7: "ReadFull 16 I3c = (None, Dc, I4c)"
    unfolding Dc_def I4c_def I3c_def Hc_def I2c_def I1c_def envC_def by code_simp
  have c8: "rdClean I4c \<and> fileRoom envC = None"
    unfolding I4c_def I3c_def Hc_def I2c_def I1c_def envC_def
    by (simp add: plainDownload_def) code_simp
  from download_failure_semantics [where env = envC and e = EOF
      and task = task and ref = ref and sz = 60 and lp = "''dl/f''" and ffo = Fc and ?in1.0 = I1c
      and infoHdr = Hc and ?in2.0 = I2c and ?in3.0 = I3c and disc = Xc and dataHdr = Dc
      and ?in4.0 = I4c]
    c1 c2 c3 c4 c5 c6 c7 c8 act
  have C: "endsCompleted (performFileTransfer envC task ref 60) task" by blast
  have C': "map_option dResFile (performFileTransfer envC task ref 60) = Some None"
    unfolding envC_def task_def ref_def by code_simp
  from A D B C C' show ?thesis
    unfolding envA_def envD_def envB_def envC_def task_def ref_def by blast
qed

text \<open>
  C8 as stated fails. A stream that declares a data fork of 10 bytes and ends after four
  of them fails before the data fork is complete, yet the worker ends with the task
  Completed and no error: four bytes are in the local file, \<open>TransferredBytes\<close> is 4, and
  the status message sent last says Completed with no error.
\<close>

theorem download_cut_data_fork_counterexample:
  "uint32 (take 4 (drop 12 (forkHeader ''DATA'' 10))) = 10
   \<and> map_option (\<lambda>out. (Status (dTask out), Error (dTask out), TransferredBytes (dTask out),
         map_option (\<lambda>p. wbuf (snd p)) (dFile out), last (dSent out)))
       (performFileTransfer
          (plainDownload [(ffoHeader 2 @ forkHeader ''INFO'' 0 @ forkHeader ''DATA'' 10
                             @ [1, 2, 3, 4], None)])
          ((newDownloadTask ''t'' ''f'' [])\<lparr>TotalBytes := 66, Status := TaskActive\<rparr>)
          (0, 0, 0, 7) 66)
     = Some (TaskCompleted, None, 4, Some [1, 2, 3, 4], TaskStatusMsg ''t'' TaskCompleted None)"
  by code_simp

section \<open>Status along one transfer\<close>

lemma copyWithProgressUpload_result:
  assumes "copyWithProgressUpload dst src sz task ticks = (e, c)"
  shows "ID (cTask c) = ID task" and "Status (cTask c) = Status task"
  using copyWithProgress_fields [of dst src sz task ticks] assms
  by (simp_all add: copyWithProgressUpload_eq)

lemma sendFlattenedFileObject_task:
  "ID (uTask (snd (sendFlattenedFileObject env conn task))) = ID task
   \<and> Status (uTask (snd (sendFlattenedFileObject env conn task))) = Status task"
proof -
  obtain rf rs hr where os: "openSidecar env = (rf, rs, hr)" by (metis prod.collapse)
  let ?fc = "if hr then 3 else 2 :: 16 word"
  let ?n = "int (length (localContent env))"
  obtain e1 c1 where w1: "Write (ffoHeader ?fc) conn = (e1, c1)" by (metis prod.collapse)
  obtain e2 c2 where w2: "Write (infoFork env) c1 = (e2, c2)" by (metis prod.collapse)
  obtain e3 c3 where w3: "Write (forkHeader ''DATA'' (toUint32 ?n)) c2 = (e3, c3)"
    by (metis prod.collapse)
  obtain e4 c where cp: "copyWithProgressUpload c3 (fileReader (localContent env)) ?n task
      (ulTicks env) = (e4, c)"
    by (metis prod.collapse)
  note f = copyWithProgressUpload_result [OF cp]
  obtain e5 c4 where w5: "Write (forkHeader ''MACR'' (toUint32 rs)) (cDst c) = (e5, c4)"
    by (metis prod.collapse)
  note unf = sendFlattenedFileObject_def os Let_def w1 w2 w3 cp
  show ?thesis
  proof (cases e1)
    case (Some x) then show ?thesis by (simp add: unf)
  next
    case n1: None
    show ?thesis
    proof (cases e2)
      case (Some x) with n1 show ?thesis by (simp add: unf)
    next
      case n2: None
      show ?thesis
      proof (cases e3)
        case (Some x) with n1 n2 show ?thesis by (simp add: unf)
      next
        case n3: None
        show ?thesis
        proof (cases e4)
          case (Some x) with n1 n2 n3 f show ?thesis by (simp add: unf)
        next
          case n4: None
          show ?thesis
          proof (cases "rf = None \<or> \<not> hr")
            case True
            with n1 n2 n3 n4 f show ?thesis by (auto simp: unf split: option.splits)
          next
            case False
            then obtain rd where rf: "rf = Some rd" and hr: hr by auto
            obtain e6 rest c5 where cn: "CopyN c4 rd (nat rs) = (e6, rest, c5)"
              by (metis prod.collapse)
            show ?thesis
              using n1 n2 n3 n4 f rf hr w1 w2 w3 cp w5 cn
              by (cases e5; cases e6) (simp_all add: sendFlattenedFileObject_def os Let_def)
          qed
        qed
      qed
    qed
  qed
qed

lemma ulDeferred_task:
  "uTask (ulDeferred s) =
     (if Status (uTask s) = TaskActive then (uTask s)\<lparr>Status := TaskCompleted\<rparr> else uTask s)
   \<and> last (uSent (ulDeferred s))
       = TaskStatusMsg (ID (uTask s))
            (if Status (uTask s) = TaskActive then TaskCompleted else Status (uTask s))
            (Error (uTask s))"
  by (simp add: ulDeferred_def deferredStatus_def Let_def)

lemma performFileUpload_terminal:
  assumes act: "Status task = TaskActive"
  shows "(Status (uTask (performFileUpload env task ref)) = TaskCompleted
          \<or> Status (uTask (performFileUpload env task ref)) = TaskFailed)
     \<and> ID (uTask (performFileUpload env task ref)) = ID task
     \<and> (\<exists>e. last (uSent (performFileUpload env task ref))
            = TaskStatusMsg (ID task) (Status (uTask (performFileUpload env task ref))) e)"
proof -
  let ?s0 = "\<lparr>uTask = task, uOut = ulConn env, uSent = []\<rparr>"
  obtain e1 c1 where w: "Write (handshake ref (uploadTotalSize env)) (ulConn env) = (e1, c1)"
    by (metis prod.collapse)
  obtain e2 s1 where sf: "sendFlattenedFileObject env c1 task = (e2, s1)"
    by (metis prod.collapse)
  from sendFlattenedFileObject_task [of env c1 task] sf act
  have s1: "ID (uTask s1) = ID task" "Status (uTask s1) = TaskActive" by simp_all
  have "\<exists>s. performFileUpload env task ref = ulDeferred s
      \<and> (Status (uTask s) = TaskActive \<or> Status (uTask s) = TaskFailed)
      \<and> ID (uTask s) = ID task"
    unfolding performFileUpload_def
    apply (rule exI, rule conjI, rule refl)
    using w sf s1 act
    apply (cases "openErr env"; cases "statErr env"; cases "ulDialErr env"; cases e1; cases e2)
    apply (simp_all add: ulFail_def)
    done
  then obtain s where s: "performFileUpload env task ref = ulDeferred s"
    and st: "Status (uTask s) = TaskActive \<or> Status (uTask s) = TaskFailed"
    and i: "ID (uTask s) = ID task"
    by blast
  from ulDeferred_task [of s] st i show ?thesis unfolding s by auto
qed

lemma performFileTransfer_terminal:
  assumes p: "performFileTransfer env task ref sz = Some out" and act: "Status task = TaskActive"
  shows "(Status (dTask out) = TaskCompleted \<or> Status (dTask out) = TaskFailed)
     \<and> ID (dTask out) = ID task
     \<and> (\<exists>e. last (dSent out) = TaskStatusMsg (ID task) (Status (dTask out)) e)"
proof (cases "dlDataFork env task ref sz")
  case None
  with p show ?thesis by (simp add: performFileTransfer_def)
next
  case (Some r)
  show ?thesis
  proof (cases r)
    case (Inl s)
    with Some have df: "dlDataFork env task ref sz = Some (Inl s)" by simp
    from dlDataFork_Inl [OF df] have f: "Status (dTask s) = TaskFailed" "ID (dTask s) = ID task"
      by blast+
    from p df have "out = dlDeferred s" by (simp add: performFileTransfer_def)
    with dlDeferred_task [of s] f show ?thesis by simp
  next
    case (Inr x)
    obtain fc ds lp s where x: "x = (fc, ds, lp, s)" by (cases x) auto
    with Some Inr have df: "dlDataFork env task ref sz = Some (Inr (fc, ds, lp, s))" by simp
    from performFileTransfer_Inr [OF df act] p have
      o: "dTask out = (dTask s)\<lparr>Status := TaskCompleted\<rparr>"
         "last (dSent out) = TaskStatusMsg (ID task) TaskCompleted (Error task)"
      by auto
    from dlDataFork_Inr [OF df] have "ID (dTask s) = ID task" by blast
    with o show ?thesis by simp
  qed
qed

lemma statusOf_storeTask:
  "Get (taskManager m) (ID task) \<noteq> None \<Longrightarrow> statusOf (storeTask task m) (ID task) = Some (Status task)"
  by (auto simp: statusOf_def storeTask_def modifyTask_def Get_def)

lemma statusOf_handleTaskStatusMsg:
  "Get (taskManager m) tid \<noteq> None \<Longrightarrow>
   statusOf (handleTaskStatusMsg (TaskStatusMsg tid st e) m) tid = Some st"
  by (auto simp: statusOf_def modifyTask_def Get_def)

lemma Get_storeTask:
  "Get (taskManager m) (ID task) \<noteq> None \<Longrightarrow> Get (taskManager (storeTask task m)) (ID task) \<noteq> None"
  by (auto simp: storeTask_def modifyTask_def Get_def)

lemma upload_steps:
  assumes i: "initiateFileUpload taskID fileName filePath fileSize localPath txID m = (m1, notice)"
  shows "statusOf m1 taskID = Some TaskPending"
    and "statusOf (handleTaskStatusMsg notice m1) taskID = Some TaskPending"
    and "\<exists>m3 task. handleUploadReplyMsg txID refNum (handleTaskStatusMsg notice m1)
            = (m3, Some (task, refNum))
          \<and> Status task = TaskActive \<and> ID task = taskID
          \<and> statusOf m3 taskID = Some TaskActive
          \<and> Get (taskManager m3) taskID \<noteq> None"
  using i
  by (auto simp: initiateFileUpload_def handleUploadReplyMsg_def statusOf_def Get_def Add_def
      modifyTask_def newUploadTask_def Let_def)

lemma uploadStatuses_eq:
  "\<exists>fin. (fin = TaskCompleted \<or> fin = TaskFailed)
     \<and> uploadStatuses env taskID fileName filePath fileSize localPath txID refNum m
         = [Some TaskPending, Some TaskPending, Some TaskActive, Some fin, Some fin]"
proof -
  obtain m1 notice where
    i: "initiateFileUpload taskID fileName filePath fileSize localPath txID m = (m1, notice)"
    by (metis prod.collapse)
  note st = upload_steps [OF i]
  from st(3) [of refNum] obtain m3 task where
    h: "handleUploadReplyMsg txID refNum (handleTaskStatusMsg notice m1) = (m3, Some (task, refNum))"
       "Status task = TaskActive" "ID task = taskID"
       "statusOf m3 taskID = Some TaskActive" "Get (taskManager m3) taskID \<noteq> None"
    by blast
  let ?out = "performFileUpload env task refNum"
  from performFileUpload_terminal [OF h(2), of env refNum] h(3) obtain e where
    t: "Status (uTask ?out) = TaskCompleted \<or> Status (uTask ?out) = TaskFailed"
       "ID (uTask ?out) = taskID"
       "last (uSent ?out) = TaskStatusMsg taskID (Status (uTask ?out)) e"
    by auto
  have g4: "Get (taskManager m3) (ID (uTask ?out)) \<noteq> None" using h(5) t(2) by simp
  have s4: "statusOf (storeTask (uTask ?out) m3) taskID = Some (Status (uTask ?out))"
    using statusOf_storeTask [OF g4] t(2) by simp
  have g5: "Get (taskManager (storeTask (uTask ?out) m3)) taskID \<noteq> None"
    using Get_storeTask [OF g4] t(2) by simp
  have s5: "statusOf (handleTaskStatusMsg (last (uSent ?out)) (storeTask (uTask ?out) m3)) taskID
      = Some (Status (uTask ?out))"
    unfolding t(3) using g5 by (rule statusOf_handleTaskStatusMsg)
  have "uploadStatuses env taskID fileName filePath fileSize localPath txID refNum m
         = [Some TaskPending, Some TaskPending, Some TaskActive,
            Some (Status (uTask ?out)), Some (Status (uTask ?out))]"
    using i st(1,2) h(1,4) s4 s5 by (simp add: uploadStatuses_def Let_def)
  with t(1) show ?thesis by blast
qed

lemma download_steps:
  "statusOf (InitiateDownload taskID fileName filePath txID m) taskID = Some TaskPending"
  "\<exists>m2 task. handleDownloadReplyMsg txID refNum transferSize fileSize
            (InitiateDownload taskID fileName filePath txID m)
            = (m2, Some (task, refNum, transferSize))
          \<and> Status task = TaskActive \<and> ID task = taskID
          \<and> statusOf m2 taskID = Some TaskActive
          \<and> Get (taskManager m2) taskID \<noteq> None"
  by (auto simp: InitiateDownload_def handleDownloadReplyMsg_def statusOf_def Get_def Add_def
      modifyTask_def newDownloadTask_def Let_def)

lemma downloadStatuses_eq:
  "(\<exists>fin. (fin = TaskCompleted \<or> fin = TaskFailed)
     \<and> downloadStatuses env taskID fileName filePath txID refNum transferSize fileSize m
         = [Some TaskPending, Some TaskActive, Some fin, Some fin])
   \<or> downloadStatuses env taskID fileName filePath txID refNum transferSize fileSize m
         = [Some TaskPending, Some TaskActive]"
proof -
  let ?m1 = "InitiateDownload taskID fileName filePath txID m"
  note st = download_steps(1) [where taskID = taskID and fileName = fileName
      and filePath = filePath and txID = txID and m = m]
  from download_steps(2) [where taskID = taskID and fileName = fileName and filePath = filePath
      and txID = txID and m = m and refNum = refNum and transferSize = transferSize
      and fileSize = fileSize]
  obtain m2 task where
    h: "handleDownloadReplyMsg txID refNum transferSize fileSize ?m1
          = (m2, Some (task, refNum, transferSize))"
       "Status task = TaskActive" "ID task = taskID"
       "statusOf m2 taskID = Some TaskActive" "Get (taskManager m2) taskID \<noteq> None"
    by blast
  show ?thesis
  proof (cases "performFileTransfer env task refNum transferSize")
    case None
    with h(1,4) st(1) show ?thesis by (simp add: downloadStatuses_def Let_def)
  next
    case (Some out)
    from performFileTransfer_terminal [OF Some h(2)] h(3) obtain e where
      t: "Status (dTask out) = TaskCompleted \<or> Status (dTask out) = TaskFailed"
         "ID (dTask out) = taskID"
         "last (dSent out) = TaskStatusMsg taskID (Status (dTask out)) e"
      by auto
    have g3: "Get (taskManager m2) (ID (dTask out)) \<noteq> None" using h(5) t(2) by simp
    have s3: "statusOf (storeTask (dTask out) m2) taskID = Some (Status (dTask out))"
      using statusOf_storeTask [OF g3] t(2) by simp
    have g4: "Get (taskManager (storeTask (dTask out) m2)) taskID \<noteq> None"
      using Get_storeTask [OF g3] t(2) by simp
    have s4: "statusOf (handleTaskStatusMsg (last (dSent out)) (storeTask (dTask out) m2)) taskID
        = Some (Status (dTask out))"
      unfolding t(3) using g4 by (rule statusOf_handleTaskStatusMsg)
    have "downloadStatuses env taskID fileName filePath txID refNum transferSize fileSize m
         = [Some TaskPending, Some TaskActive, Some (Status (dTask out)), Some (Status (dTask out))]"
      using Some h(1,4) st s3 s4 by (simp add: downloadStatuses_def Let_def)
    with t(1) show ?thesis by blast
  qed
qed

text \<open>
  C5, as the code has it. When the updates of one transfer are handled in the order the
  program issues them, the status of its task only moves forward. For an upload it is
  Pending after \<open>initiateFileUpload\<close> and after its Pending notice, Active after the upload
  reply, Completed or Failed when the worker returns, and the same after the worker's
  notice. For a download it is Pending after \<open>InitiateDownload\<close>, Active after the
  download reply, and, if the worker returns, Completed or Failed then and after its
  notice. The handlers do not enforce the order: \<open>handleTaskStatusMsg\<close> stores the status
  its message carries, whatever the task has.
\<close>

theorem transfer_status_forward:
  "(\<exists>fin. (fin = TaskCompleted \<or> fin = TaskFailed)
     \<and> uploadStatuses uenv taskID fileName filePath fileSize localPath txID refNum m
         = [Some TaskPending, Some TaskPending, Some TaskActive, Some fin, Some fin])
   \<and> forwardOnly (uploadStatuses uenv taskID fileName filePath fileSize localPath txID refNum m)
   \<and> ((\<exists>fin. (fin = TaskCompleted \<or> fin = TaskFailed)
         \<and> downloadStatuses denv taskID fileName filePath txID refNum transferSize fileSize' m
             = [Some TaskPending, Some TaskActive, Some fin, Some fin])
       \<or> (performFileTransfer denv
             ((newDownloadTask taskID fileName filePath)
                \<lparr>TotalBytes := uint transferSize, Status := TaskActive\<rparr>) refNum transferSize = None
           \<and> downloadStatuses denv taskID fileName filePath txID refNum transferSize fileSize' m
             = [Some TaskPending, Some TaskActive]))
   \<and> forwardOnly (downloadStatuses denv taskID fileName filePath txID refNum transferSize fileSize' m)"
proof -
  from uploadStatuses_eq [of uenv taskID fileName filePath fileSize localPath txID refNum m]
  obtain fu where u: "fu = TaskCompleted \<or> fu = TaskFailed"
    "uploadStatuses uenv taskID fileName filePath fileSize localPath txID refNum m
         = [Some TaskPending, Some TaskPending, Some TaskActive, Some fu, Some fu]"
    by blast
  have fu: "forwardOnly (uploadStatuses uenv taskID fileName filePath fileSize localPath txID refNum m)"
    using u by (auto simp: forward_def)
  let ?task = "(newDownloadTask taskID fileName filePath)
                \<lparr>TotalBytes := uint transferSize, Status := TaskActive\<rparr>"
  let ?ds = "downloadStatuses denv taskID fileName filePath txID refNum transferSize fileSize' m"
  have sp: "snd (handleDownloadReplyMsg txID refNum transferSize fileSize'
          (InitiateDownload taskID fileName filePath txID m)) = Some (?task, refNum, transferSize)"
    by (rule handleDownloadReplyMsg_initiated)
  have d: "(\<exists>fin. (fin = TaskCompleted \<or> fin = TaskFailed)
         \<and> ?ds = [Some TaskPending, Some TaskActive, Some fin, Some fin])
       \<or> (performFileTransfer denv ?task refNum transferSize = None
           \<and> ?ds = [Some TaskPending, Some TaskActive])"
  proof (cases "performFileTransfer denv ?task refNum transferSize")
    case None
    obtain m2 where "handleDownloadReplyMsg txID refNum transferSize fileSize'
          (InitiateDownload taskID fileName filePath txID m) = (m2, Some (?task, refNum, transferSize))"
      using sp by (metis prod.collapse)
    with None have "length ?ds = 2" by (simp add: downloadStatuses_def Let_def)
    with downloadStatuses_eq [of denv taskID fileName filePath txID refNum transferSize fileSize' m]
      None show ?thesis by auto
  next
    case (Some out)
    obtain m2 where "handleDownloadReplyMsg txID refNum transferSize fileSize'
          (InitiateDownload taskID fileName filePath txID m) = (m2, Some (?task, refNum, transferSize))"
      using sp by (metis prod.collapse)
    with Some have "length ?ds = 4" by (simp add: downloadStatuses_def Let_def)
    with downloadStatuses_eq [of denv taskID fileName filePath txID refNum transferSize fileSize' m]
    show ?thesis by auto
  qed
  have fd: "forwardOnly ?ds" using d by (auto simp: forward_def)
  from u fu d fd show ?thesis by blast
qed

text \<open>
  C5 as stated fails for a sequence the handlers accept: the upload reply handled before
  the Pending notice that \<open>initiateFileUpload\<close> returned. The task is Active after the
  reply and Pending again after the notice.
\<close>

theorem late_pending_notice_counterexample:
  "statusOf (fst (handleUploadReplyMsg (0, 0, 0, 1) (0, 0, 0, 7)
       (fst (initiateFileUpload ''t'' ''f'' [] 3 ''f'' (0, 0, 0, 1) NewModel)))) ''t''
     = Some TaskActive
   \<and> statusOf (handleTaskStatusMsg
         (snd (initiateFileUpload ''t'' ''f'' [] 3 ''f'' (0, 0, 0, 1) NewModel))
         (fst (handleUploadReplyMsg (0, 0, 0, 1) (0, 0, 0, 7)
            (fst (initiateFileUpload ''t'' ''f'' [] 3 ''f'' (0, 0, 0, 1) NewModel))))) ''t''
     = Some TaskPending
   \<and> \<not> forward TaskActive TaskPending"
  by (simp add: initiateFileUpload_def handleUploadReplyMsg_def statusOf_def Get_def Add_def
      modifyTask_def newUploadTask_def Let_def NewModel_def NewTaskManager_def forward_def)


section \<open>The handshake on the wire\<close>

lemma dlReadHeaders_out:
  "dlReadHeaders s = Inl s' \<Longrightarrow> dOut s' = dOut s"
  "dlReadHeaders s = Inr (fc, ds, s') \<Longrightarrow> dOut s' = dOut s"
  by (auto simp: dlReadHeaders_def dlFail_def Let_def split: option.splits prod.splits)

lemma dlCopyData_out:
  "dlCopyData env lp lfile ds s = Inl s' \<Longrightarrow> dOut s' = dOut s"
  "dlCopyData env lp lfile ds s = Inr s' \<Longrightarrow> dOut s' = dOut s"
  by (auto simp: dlCopyData_def dlFail_def Let_def split: option.splits prod.splits)

lemma dlResourceFork_out: "dOut (dlResourceFork env lp s) = dOut s"
  by (auto simp: dlResourceFork_def Let_def split: option.splits prod.splits)

lemma dlDeferred_out: "dOut (dlDeferred s) = dOut s"
  by (simp add: dlDeferred_def deferredStatus_def Let_def)

lemma dlOpen_out:
  assumes "dialErr env = None" and "wroom (connOut env) = None"
  shows "dlOpen env task ref sz = Some (Inl s) \<Longrightarrow>
           wbuf (dOut s) = wbuf (connOut env) @ handshake ref sz"
    and "dlOpen env task ref sz = Some (Inr (lp, lfile, s)) \<Longrightarrow>
           wbuf (dOut s) = wbuf (connOut env) @ handshake ref sz"
  using assms
  by (auto simp: dlOpen_def dlFail_def Let_def Write_unbounded split: option.splits)

lemma performFileTransfer_out:
  assumes d: "dialErr env = None" and r: "wroom (connOut env) = None"
    and p: "performFileTransfer env task ref sz = Some out"
  shows "wbuf (dOut out) = wbuf (connOut env) @ handshake ref sz"
proof (cases "dlOpen env task ref sz")
  case None
  with p show ?thesis by (simp add: performFileTransfer_def dlDataFork_def)
next
  case (Some a)
  show ?thesis
  proof (cases a)
    case (Inl s)
    with Some p have "out = dlDeferred s"
      by (simp add: performFileTransfer_def dlDataFork_def)
    with dlOpen_out(1) [OF d r, of task ref sz s] Some Inl show ?thesis
      by (simp add: dlDeferred_out)
  next
    case (Inr x)
    obtain lp lfile s1 where x: "x = (lp, lfile, s1)" by (cases x) auto
    with Some Inr have op: "dlOpen env task ref sz = Some (Inr (lp, lfile, s1))" by simp
    note o1 = dlOpen_out(2) [OF d r op]
    show ?thesis
    proof (cases "dlReadHeaders s1")
      case (Inl s2)
      with op p have "out = dlDeferred s2"
        by (simp add: performFileTransfer_def dlDataFork_def)
      with dlReadHeaders_out(1) [OF Inl] o1 show ?thesis by (simp add: dlDeferred_out)
    next
      case (Inr y)
      obtain fc ds s2 where y: "y = (fc, ds, s2)" by (cases y) auto
      with Inr have rh: "dlReadHeaders s1 = Inr (fc, ds, s2)" by simp
      note o2 = dlReadHeaders_out(2) [OF rh]
      show ?thesis
      proof (cases "dlCopyData env lp lfile ds s2")
        case (Inl s3)
        with op rh p have "out = dlDeferred s3"
          by (simp add: performFileTransfer_def dlDataFork_def)
        with dlCopyData_out(1) [OF Inl] o1 o2 show ?thesis by (simp add: dlDeferred_out)
      next
        case (Inr s3)
        with op rh p have
          "out = dlDeferred (if fc = 3 then dlResourceFork env lp s3 else s3)"
          by (simp add: performFileTransfer_def dlDataFork_def)
        with dlCopyData_out(2) [OF Inr] o1 o2 show ?thesis
          by (simp add: dlDeferred_out dlResourceFork_out)
      qed
    qed
  qed
qed

lemma performFileUpload_out:
  assumes "openErr env = None" and "statErr env = None" and "ulDialErr env = None"
    and r: "wroom (ulConn env) = None"
  shows "take 16 (drop (length (wbuf (ulConn env))) (wbuf (uOut (performFileUpload env task ref))))
     = handshake ref (uploadTotalSize env)"
proof -
  let ?h = "handshake ref (uploadTotalSize env)"
  let ?c1 = "(ulConn env)\<lparr>wbuf := wbuf (ulConn env) @ ?h\<rparr>"
  have w: "Write ?h (ulConn env) = (None, ?c1)" using r by (rule Write_unbounded)
  have r1: "wroom ?c1 = None" using r by simp
  obtain e s1 where sf: "sendFlattenedFileObject env ?c1 task = (e, s1)" by (metis prod.collapse)
  from sendFlattenedFileObject_unbounded [OF r1, of env task] sf obtain rest where
    b: "e = None" "wbuf (uOut s1) = wbuf (ulConn env) @ ?h @ rest"
    by auto
  have "uOut (performFileUpload env task ref) = uOut s1"
    using assms(1-3) w sf b(1)
    by (simp add: performFileUpload_def ulDeferred_def deferredStatus_def Let_def)
  moreover have "length ?h = 16"
    by (cases ref) (simp add: handshake_layout bytesOf_def length_putUint32)
  ultimately show ?thesis using b(2) by simp
qed

text \<open>
  C1. The handshake is sixteen bytes: the ASCII tag \<open>HTXF\<close> at \<open>[0:4]\<close>, the four bytes of
  the reference number unchanged at \<open>[4:8]\<close>, the transfer size as a big-endian 32-bit
  number at \<open>[8:12]\<close> (decoding them big-endian gives the size back), zeros at \<open>[12:16]\<close>.
  For the reference number \<open>00 00 00 07\<close> and the size 1024 the bytes are
  \<open>48 54 58 46 00 00 00 07 00 00 04 00 00 00 00 00\<close>. These sixteen bytes are all that a
  download worker writes to a connection that accepts them, and the first sixteen that
  an upload worker writes, there with the total size it computed.
\<close>

theorem handshake_bytes:
  "length (handshake refNum totalSize) = 16
   \<and> take 4 (handshake refNum totalSize) = [0x48, 0x54, 0x58, 0x46]
   \<and> take 4 (handshake refNum totalSize) = bytesOf ''HTXF''
   \<and> take 4 (drop 4 (handshake refNum totalSize)) = refBytes refNum
   \<and> take 4 (drop 8 (handshake refNum totalSize)) = putUint32 totalSize
   \<and> uint32 (take 4 (drop 8 (handshake refNum totalSize))) = totalSize
   \<and> drop 12 (handshake refNum totalSize) = [0, 0, 0, 0]
   \<and> handshake (0x00, 0x00, 0x00, 0x07) 1024 =
       [0x48, 0x54, 0x58, 0x46, 0x00, 0x00, 0x00, 0x07,
        0x00, 0x00, 0x04, 0x00, 0x00, 0x00, 0x00, 0x00]
   \<and> (dialErr denv = None \<and> wroom (connOut denv) = None
        \<and> performFileTransfer denv dtask refNum totalSize = Some out \<longrightarrow>
        wbuf (dOut out) = wbuf (connOut denv) @ handshake refNum totalSize)
   \<and> (openErr uenv = None \<and> statErr uenv = None \<and> ulDialErr uenv = None
        \<and> wroom (ulConn uenv) = None \<longrightarrow>
        take 16 (drop (length (wbuf (ulConn uenv)))
                   (wbuf (uOut (performFileUpload uenv utask refNum))))
          = handshake refNum (uploadTotalSize uenv))"
  using handshake_fields [of refNum totalSize]
    performFileTransfer_out [of denv dtask refNum totalSize out]
    performFileUpload_out [of uenv utask refNum]
  by blast

text \<open>A download with reference number \<open>00 00 00 07\<close> and size 1024, and the upload of
  a three-byte file, whose total size is 59.\<close>

theorem handshake_bytes_witness:
  "dialErr (plainDownload [(ffoHeader 2 @ forkHeader ''INFO'' 0 @ forkHeader ''DATA'' 0, None)]) = None
   \<and> wroom (connOut (plainDownload
          [(ffoHeader 2 @ forkHeader ''INFO'' 0 @ forkHeader ''DATA'' 0, None)])) = None
   \<and> (\<exists>out. performFileTransfer
          (plainDownload [(ffoHeader 2 @ forkHeader ''INFO'' 0 @ forkHeader ''DATA'' 0, None)])
          ((newDownloadTask ''t'' ''f'' [])\<lparr>TotalBytes := 1024, Status := TaskActive\<rparr>)
          (0x00, 0x00, 0x00, 0x07) 1024 = Some out
        \<and> wbuf (dOut out) = [0x48, 0x54, 0x58, 0x46, 0x00, 0x00, 0x00, 0x07,
                              0x00, 0x00, 0x04, 0x00, 0x00, 0x00, 0x00, 0x00])
   \<and> openErr (plainUpload Missing None) = None \<and> statErr (plainUpload Missing None) = None
   \<and> ulDialErr (plainUpload Missing None) = None
   \<and> wroom (ulConn (plainUpload Missing None)) = None
   \<and> uploadTotalSize (plainUpload Missing None) = 59
   \<and> take 16 (wbuf (uOut (performFileUpload (plainUpload Missing None)
          ((newUploadTask ''t'' ''f'' [] 3 ''f'')\<lparr>Status := TaskActive\<rparr>)
          (0x00, 0x00, 0x00, 0x07))))
       = [0x48, 0x54, 0x58, 0x46, 0x00, 0x00, 0x00, 0x07,
          0x00, 0x00, 0x00, 0x3B, 0x00, 0x00, 0x00, 0x00]"
proof -
  let ?D = "plainDownload [(ffoHeader 2 @ forkHeader ''INFO'' 0 @ forkHeader ''DATA'' 0, None)]"
  let ?T = "(newDownloadTask ''t'' ''f'' [])\<lparr>TotalBytes := 1024, Status := TaskActive\<rparr>"
  let ?U = "plainUpload Missing None"
  let ?V = "(newUploadTask ''t'' ''f'' [] 3 ''f'')\<lparr>Status := TaskActive\<rparr>"
  have d: "dialErr ?D = None" "wroom (connOut ?D) = None" "wbuf (connOut ?D) = []"
    by (simp_all add: plainDownload_def newFile_def)
  have "performFileTransfer ?D ?T (0x00, 0x00, 0x00, 0x07) 1024 \<noteq> None"
    by code_simp
  then obtain out where o: "performFileTransfer ?D ?T (0x00, 0x00, 0x00, 0x07) 1024 = Some out"
    by auto
  have u: "openErr ?U = None" "statErr ?U = None" "ulDialErr ?U = None"
    "wroom (ulConn ?U) = None" "wbuf (ulConn ?U) = []"
    by (simp_all add: plainUpload_def newFile_def)
  have ts: "uploadTotalSize ?U = 59"
    by (simp add: uploadTotalSize_def statSidecar_def plainUpload_def toUint32_def
        forkHeader_def copyAt_def makeBytes_def bytesOf_def length_putUint32)
  have h59: "handshake (0x00, 0x00, 0x00, 0x07) 59 =
       [0x48, 0x54, 0x58, 0x46, 0x00, 0x00, 0x00, 0x07,
        0x00, 0x00, 0x00, 0x3B, 0x00, 0x00, 0x00, 0x00]"
    by (simp add: handshake_layout bytesOf_def putUint32_def)
  from handshake_bytes [of "(0x00, 0x00, 0x00, 0x07)" 1024 ?D ?T out ?U ?V] d o u
  have a: "wbuf (dOut out) = [0x48, 0x54, 0x58, 0x46, 0x00, 0x00, 0x00, 0x07,
                              0x00, 0x00, 0x04, 0x00, 0x00, 0x00, 0x00, 0x00]"
    and b: "take 16 (wbuf (uOut (performFileUpload ?U ?V (0x00, 0x00, 0x00, 0x07))))
        = handshake (0x00, 0x00, 0x00, 0x07) (uploadTotalSize ?U)"
    by simp_all
  from b have b': "take 16 (wbuf (uOut (performFileUpload ?U ?V (0x00, 0x00, 0x00, 0x07))))
       = [0x48, 0x54, 0x58, 0x46, 0x00, 0x00, 0x00, 0x07,
          0x00, 0x00, 0x00, 0x3B, 0x00, 0x00, 0x00, 0x00]"
    unfolding ts h59 .
  from d(1,2) o a u(1-4) ts b' show ?thesis by blast
qed


end
